theory Spec2Isabelle
  imports Complex_Main "HOL-Library.AList"
begin

section \<open>The Rustorium ledger core (\<^verbatim>\<open>api_server/blockchain.py\<close>)\<close>

text \<open>
  A shallow embedding of the Python classes \<^verbatim>\<open>Transaction\<close>, \<^verbatim>\<open>Account\<close>,
  \<^verbatim>\<open>Block\<close> and \<^verbatim>\<open>Blockchain\<close>.

  \<^item> Python floats (amounts, fees, balances, timestamps) are modelled as \<open>real\<close>:
    the rounding of a stored value is idealised away. Where the code takes a branch on
    float arithmetic, the model follows the machine: the conversion of an integer
    beyond the float range raises \<open>OverflowError\<close>, and the float sum in the balance
    test of \<^verbatim>\<open>add_transaction\<close> is the machine's float addition, a parameter
    \<open>float_add\<close> of the model.
  \<^item> Python ints are \<open>int\<close>; a difficulty, which is only used as a slice length and
    a repetition count, is \<open>nat\<close>.
  \<^item> Everything the code reads from its environment is an argument of the model:
    the clock (\<^verbatim>\<open>time.time()\<close>), the random identifier (\<^verbatim>\<open>uuid.uuid4().hex\<close>),
    and the library hash \<^verbatim>\<open>hashlib.sha256(json.dumps(..., sort_keys=True).encode()).hexdigest()\<close>,
    which is a parameter \<open>H\<close> on the six serialised block fields.
  \<^item> A Python exception is a value of type \<open>error\<close>, returned together with the
    ledger as the exception leaves it.
  \<^item> The field \<^verbatim>\<open>Block.size\<close> (the byte length of a JSON dump) is reported by
    \<^verbatim>\<open>Block.to_dict\<close> only; no operation modelled here reads it and it is left out.
\<close>

subsection \<open>Exceptions and float arithmetic\<close>

datatype error =
  UnknownSender | InsufficientBalance | TypeError | IndexError | KeyError | OverflowError

text \<open>
  The conversion of an \<^verbatim>\<open>int\<close> to a \<^verbatim>\<open>float\<close> that the true division
  \<^verbatim>\<open>int / float\<close> performs on its left operand: an integer that rounds to a
  magnitude beyond the largest double, \<^verbatim>\<open>2**1024 - 2**971\<close>, raises
  \<^verbatim>\<open>OverflowError: int too large to convert to float\<close>; with rounding to nearest,
  these are the integers of magnitude \<^verbatim>\<open>2**1024 - 2**970\<close> and more.
\<close>

definition FLOAT_INT_LIMIT :: int where
  "FLOAT_INT_LIMIT = 2 ^ 1024 - 2 ^ 970"

definition int_to_float :: "int \<Rightarrow> error + real" where
  "int_to_float n =
     (if FLOAT_INT_LIMIT \<le> \<bar>n\<bar> then Inl OverflowError else Inr (real_of_int n))"

text \<open>The float addition of the machine: the sum of two floats, rounded to a float.\<close>

type_synonym float_add = "real \<Rightarrow> real \<Rightarrow> real"

subsection \<open>Transaction\<close>

datatype status = Pending | Confirmed | Failed

text \<open>
  One record type serves both for a \<^verbatim>\<open>Transaction\<close> object and for the dictionary
  \<^verbatim>\<open>Transaction.to_dict()\<close> builds from it: the dictionary has exactly these thirteen
  keys. An object sits in the pending pool; a dictionary is a by-value copy stored in a block.
\<close>

record transaction =
  tx_id :: string
  tx_sender :: string
  tx_recipient :: string
  tx_amount :: real
  tx_fee :: real
  tx_nonce :: int
  tx_timestamp :: real
  tx_data :: string
  tx_status :: status
  tx_block_number :: "int option"
  tx_gas_used :: int
  tx_gas_price :: int
  tx_gas_limit :: int

type_synonym tx_dict = transaction

text \<open>
  \<^verbatim>\<open>Transaction.__init__\<close>, statement by statement. \<open>uid\<close> is \<^verbatim>\<open>uuid.uuid4().hex\<close>
  and \<open>now\<close> is \<^verbatim>\<open>time.time()\<close>. The argument \<open>fee\<close> is stored first and
  overwritten by the last statement, \<^verbatim>\<open>(self.gas_used * self.gas_price) / 1e9\<close>,
  which divides an \<^verbatim>\<open>int\<close> by a \<^verbatim>\<open>float\<close> and so raises \<open>OverflowError\<close>
  when the product is beyond the float range; no object is constructed then.
\<close>

definition Transaction_init ::
  "string \<Rightarrow> real \<Rightarrow> string \<Rightarrow> string \<Rightarrow> real \<Rightarrow> real \<Rightarrow> string \<Rightarrow> int \<Rightarrow> int \<Rightarrow> int
     \<Rightarrow> error + transaction" where
  "Transaction_init uid now sender recipient amount fee data nonce gas_price gas_limit =
     (let t0 = \<lparr> tx_id = ''0x'' @ uid, tx_sender = sender, tx_recipient = recipient,
                  tx_amount = amount, tx_fee = fee, tx_nonce = nonce, tx_timestamp = now,
                  tx_data = data, tx_status = Pending, tx_block_number = None,
                  tx_gas_used = 21000, tx_gas_price = gas_price, tx_gas_limit = gas_limit \<rparr>;
          t1 = (if data \<noteq> [] then t0\<lparr>tx_gas_used := tx_gas_used t0 + int (length data) * 68\<rparr>
                else t0);
          t2 = t1\<lparr>tx_gas_used := min (tx_gas_used t1) gas_limit\<rparr>
      in case int_to_float (tx_gas_used t2 * tx_gas_price t2) of
           Inl e \<Rightarrow> Inl e
         | Inr product \<Rightarrow> Inr (t2\<lparr>tx_fee := product / 1000000000\<rparr>))"

definition to_dict :: "transaction \<Rightarrow> tx_dict" where
  "to_dict tx = tx"

subsection \<open>Account\<close>

record account =
  acc_address :: string
  acc_private_key :: "string option"
  acc_balance :: real
  acc_is_contract :: bool
  acc_nonce :: int
  acc_transaction_count :: int
  acc_last_activity :: real
  acc_tokens :: "(string \<times> real) list"

definition Account_init :: "real \<Rightarrow> string \<Rightarrow> string option \<Rightarrow> real \<Rightarrow> bool \<Rightarrow> int \<Rightarrow> account" where
  "Account_init now address private_key balance is_contract nonce =
     \<lparr> acc_address = address, acc_private_key = private_key, acc_balance = balance,
       acc_is_contract = is_contract, acc_nonce = nonce, acc_transaction_count = 0,
       acc_last_activity = now, acc_tokens = [] \<rparr>"

text \<open>
  The dictionary \<^verbatim>\<open>Blockchain.accounts\<close> is an association list in insertion order:
  \<open>map_of\<close> is a lookup, \<open>AList.update\<close> is \<^verbatim>\<open>accounts[k] = v\<close> (in place for a key
  that is present, appended for a new one).
\<close>

type_synonym accounts = "(string \<times> account) list"

subsection \<open>Block\<close>

record block =
  index :: int
  transactions :: "tx_dict list"
  timestamp :: real
  previous_hash :: string
  validator :: string
  difficulty :: nat
  nonce :: int
  hash :: string
  block_gas_used :: int
  block_gas_limit :: int

text \<open>
  The hash function of the library applied to the JSON text of the six fields
  \<^verbatim>\<open>index, transactions, timestamp, previous_hash, validator, nonce\<close>.
\<close>

type_synonym block_content = "int \<times> tx_dict list \<times> real \<times> string \<times> string \<times> int"

type_synonym hash_fn = "block_content \<Rightarrow> string"

definition block_fields :: "block \<Rightarrow> block_content" where
  "block_fields b = (index b, transactions b, timestamp b, previous_hash b, validator b, nonce b)"

definition calculate_hash :: "hash_fn \<Rightarrow> block \<Rightarrow> string" where
  "calculate_hash H b = H (block_fields b)"

definition Block_init ::
  "hash_fn \<Rightarrow> int \<Rightarrow> tx_dict list \<Rightarrow> real \<Rightarrow> string \<Rightarrow> string \<Rightarrow> nat \<Rightarrow> block" where
  "Block_init H idx txs ts prev val d =
     (let b0 = \<lparr> index = idx, transactions = txs, timestamp = ts, previous_hash = prev,
                  validator = val, difficulty = d, nonce = 0, hash = [],
                  block_gas_used = (if txs \<noteq> [] then sum_list (map tx_gas_used txs) else 0),
                  block_gas_limit = 10000000 \<rparr>
      in b0\<lparr>hash := calculate_hash H b0\<rparr>)"

text \<open>
  The Proof-of-Work loop of \<^verbatim>\<open>Block.mine_block\<close>. Nothing bounds the search, so
  the loop is a partial function: \<open>None\<close> stands for a search that never ends.
\<close>

partial_function (option) mine_loop :: "hash_fn \<Rightarrow> block \<Rightarrow> block option" where
  "mine_loop H b =
     (if take (difficulty b) (hash b) \<noteq> replicate (difficulty b) (CHR ''0'')
      then mine_loop H (let b1 = b\<lparr>nonce := nonce b + 1\<rparr> in b1\<lparr>hash := calculate_hash H b1\<rparr>)
      else Some b)"

declare mine_loop.simps [code]

definition mine_block :: "hash_fn \<Rightarrow> nat option \<Rightarrow> block \<Rightarrow> block option" where
  "mine_block H d b =
     mine_loop H (case d of None \<Rightarrow> b | Some d' \<Rightarrow> b\<lparr>difficulty := d'\<rparr>)"

subsection \<open>Blockchain\<close>

record ledger =
  chain :: "block list"
  pending_transactions :: "transaction list"
  accounts :: accounts

definition SYSTEM_ADDRESS :: string where
  "SYSTEM_ADDRESS = ''0x0000000000000000000000000000000000000000''"

definition create_genesis_block :: "hash_fn \<Rightarrow> real \<Rightarrow> ledger \<Rightarrow> ledger" where
  "create_genesis_block H now s =
     (let genesis_block = Block_init H 0 [] now ''0'' SYSTEM_ADDRESS 4;
          genesis_block = genesis_block\<lparr>hash := calculate_hash H genesis_block\<rparr>
      in s\<lparr>chain := chain s @ [genesis_block]\<rparr>)"

definition initial_accounts :: "(string \<times> string \<times> real) list" where
  "initial_accounts =
     [(''0x1234567890abcdef1234567890abcdef12345678'',
       ''0xabcdef1234567890abcdef1234567890abcdef1234567890abcdef1234567890'', 1000000),
      (''0xabcdef1234567890abcdef1234567890abcdef12'',
       ''0x1234567890abcdef1234567890abcdef1234567890abcdef1234567890abcdef'', 500000),
      (''0x9876543210fedcba9876543210fedcba98765432'',
       ''0xfedcba9876543210fedcba9876543210fedcba9876543210fedcba9876543210'', 750000)]"

text \<open>\<open>t1\<close>, \<open>t2\<close>, \<open>t3\<close> are the clock readings of the three \<^verbatim>\<open>Account\<close> constructions.\<close>

definition create_initial_accounts :: "real \<Rightarrow> real \<Rightarrow> real \<Rightarrow> ledger \<Rightarrow> ledger" where
  "create_initial_accounts t1 t2 t3 s =
     s\<lparr>accounts :=
         fold (\<lambda>((a, k, b), now) accs. AList.update a (Account_init now a (Some k) b False 0) accs)
           (zip initial_accounts [t1, t2, t3]) (accounts s)\<rparr>"

definition Blockchain_init :: "hash_fn \<Rightarrow> real \<Rightarrow> real \<Rightarrow> real \<Rightarrow> real \<Rightarrow> ledger" where
  "Blockchain_init H t_genesis t1 t2 t3 =
     create_initial_accounts t1 t2 t3
       (create_genesis_block H t_genesis
          \<lparr> chain = [], pending_transactions = [], accounts = [] \<rparr>)"

definition get_latest_block :: "ledger \<Rightarrow> error + block" where
  "get_latest_block s = (if chain s = [] then Inl IndexError else Inr (last (chain s)))"

text \<open>
  \<^verbatim>\<open>Blockchain.add_transaction\<close> on a \<^verbatim>\<open>Transaction\<close> object. \<open>now\<close> is the clock
  reading of the \<^verbatim>\<open>Account\<close> construction for an unknown recipient. The two
  \<^verbatim>\<open>raise ValueError\<close> statements are the errors \<open>UnknownSender\<close> and
  \<open>InsufficientBalance\<close>; \<^verbatim>\<open>self.accounts[tx.sender]\<close> is a subscript, which raises
  \<open>KeyError\<close> on a missing key (it never does here, after the first test). The
  balance test compares the balance with the float sum \<^verbatim>\<open>tx.amount + tx.fee\<close>.
\<close>

definition add_transaction ::
  "float_add \<Rightarrow> real \<Rightarrow> transaction \<Rightarrow> ledger \<Rightarrow> (error + string) \<times> ledger" where
  "add_transaction float_add now tx s =
     (if map_of (accounts s) (tx_sender tx) = None then (Inl UnknownSender, s)
      else
        let s1 = (if map_of (accounts s) (tx_recipient tx) = None
                  then s\<lparr>accounts := AList.update (tx_recipient tx)
                          (Account_init now (tx_recipient tx) None 0 False 0) (accounts s)\<rparr>
                  else s)
        in case map_of (accounts s1) (tx_sender tx) of
             None \<Rightarrow> (Inl KeyError, s1)
           | Some sender_account \<Rightarrow>
               if acc_balance sender_account < float_add (tx_amount tx) (tx_fee tx)
               then (Inl InsufficientBalance, s1)
               else
                 let tx1 = tx\<lparr>tx_nonce := acc_nonce sender_account\<rparr>;
                     s2 = s1\<lparr>pending_transactions := pending_transactions s1 @ [tx1]\<rparr>;
                     s3 = s2\<lparr>accounts := AList.update (tx_sender tx)
                             (sender_account\<lparr>acc_nonce := acc_nonce sender_account + 1\<rparr>)
                             (accounts s2)\<rparr>
                 in (Inr (tx_id tx1), s3))"

text \<open>
  The dictionary branch of \<^verbatim>\<open>add_transaction\<close>, which is how the HTTP layer calls
  it and what the specification names \<open>stage_transaction\<close>: the transaction is built
  from the six request fields, with the defaults \<^verbatim>\<open>fee=0.0\<close> and \<^verbatim>\<open>nonce=0\<close>.
  An exception of the constructor leaves the call before the ledger is looked at.
\<close>

definition stage_transaction ::
  "float_add \<Rightarrow> string \<Rightarrow> real \<Rightarrow> real \<Rightarrow> string \<Rightarrow> string \<Rightarrow> real \<Rightarrow> string \<Rightarrow> int \<Rightarrow> int
     \<Rightarrow> ledger \<Rightarrow> (error + string) \<times> ledger" where
  "stage_transaction float_add uid now_tx now_acc sender recipient amount data gas_price gas_limit s =
     (case Transaction_init uid now_tx sender recipient amount 0 data 0 gas_price gas_limit of
        Inl e \<Rightarrow> (Inl e, s)
      | Inr tx \<Rightarrow> add_transaction float_add now_acc tx s)"

text \<open>
  \<^verbatim>\<open>Blockchain._process_transaction\<close>. It mutates the transaction object and the
  accounts, so both are returned. The last branch calls \<^verbatim>\<open>Account(...)\<close> with the
  keyword \<^verbatim>\<open>last_activity\<close>, which \<^verbatim>\<open>Account.__init__\<close> does not take: Python
  raises \<open>TypeError\<close> there, after the sender has been debited.
\<close>

definition process_transaction ::
  "transaction \<Rightarrow> int \<Rightarrow> accounts \<Rightarrow> (error + unit) \<times> transaction \<times> accounts" where
  "process_transaction tx block_number accs =
     (let tx1 = tx\<lparr>tx_status := Confirmed\<rparr>;
          tx2 = tx1\<lparr>tx_block_number := Some block_number\<rparr>;
          accs1 =
            (if tx_sender tx2 \<noteq> SYSTEM_ADDRESS then
               (case map_of accs (tx_sender tx2) of
                  Some sender \<Rightarrow>
                    AList.update (tx_sender tx2)
                      (sender\<lparr>acc_balance := acc_balance sender - (tx_amount tx2 + tx_fee tx2),
                              acc_transaction_count := acc_transaction_count sender + 1,
                              acc_last_activity := tx_timestamp tx2\<rparr>) accs
                | None \<Rightarrow> accs)
             else accs)
      in case map_of accs1 (tx_recipient tx2) of
           Some recipient \<Rightarrow>
             (Inr (), tx2,
              AList.update (tx_recipient tx2)
                (recipient\<lparr>acc_balance := acc_balance recipient + tx_amount tx2,
                           acc_last_activity := tx_timestamp tx2\<rparr>) accs1)
         | None \<Rightarrow> (Inl TypeError, tx2, accs1))"

text \<open>
  The loop \<^verbatim>\<open>for tx in self.pending_transactions: self._process_transaction(tx, ...)\<close>.
  An exception stops it; the transactions processed so far stay mutated in the pool.
\<close>

fun process_all ::
  "int \<Rightarrow> transaction list \<Rightarrow> accounts \<Rightarrow> (error + unit) \<times> transaction list \<times> accounts" where
  "process_all block_number [] accs = (Inr (), [], accs)"
| "process_all block_number (tx # txs) accs =
     (case process_transaction tx block_number accs of
        (Inl e, tx', accs') \<Rightarrow> (Inl e, tx' # txs, accs')
      | (Inr u, tx', accs') \<Rightarrow>
          (case process_all block_number txs accs' of
             (r, txs', accs'') \<Rightarrow> (r, tx' # txs', accs'')))"

text \<open>
  \<^verbatim>\<open>Blockchain.mine_pending_transactions\<close>. \<open>uid\<close> and \<open>now_tx\<close> are the
  identifier and the clock reading of the reward transaction, \<open>now_blk\<close> the clock
  reading of the block. The outer \<open>option\<close> is \<open>None\<close> when the Proof-of-Work search
  never ends; the inner result is the exception, or the returned block (\<open>None\<close> for an
  empty pool).
\<close>

definition mine_pending_transactions ::
  "hash_fn \<Rightarrow> string \<Rightarrow> real \<Rightarrow> real \<Rightarrow> string \<Rightarrow> ledger
     \<Rightarrow> ((error + block option) \<times> ledger) option" where
  "mine_pending_transactions H uid now_tx now_blk miner_address s =
     (if pending_transactions s = [] then Some (Inr None, s)
      else
        case Transaction_init uid now_tx SYSTEM_ADDRESS miner_address 5 0 [] 0 5 21000 of
          Inl e \<Rightarrow> Some (Inl e, s)
        | Inr reward_tx \<Rightarrow>
       (let reward_tx = reward_tx\<lparr>tx_status := Confirmed\<rparr>;
            s1 = s\<lparr>pending_transactions := pending_transactions s @ [reward_tx]\<rparr>
        in (case get_latest_block s1 of
              Inl e \<Rightarrow> Some (Inl e, s1)
            | Inr latest \<Rightarrow>
                (case mine_block H None
                        (Block_init H (int (length (chain s1)))
                           (map to_dict (pending_transactions s1)) now_blk
                           (hash latest) miner_address 4) of
                   None \<Rightarrow> None
                 | Some new_block \<Rightarrow>
                     (let s2 = s1\<lparr>chain := chain s1 @ [new_block]\<rparr>
                      in (case process_all (index new_block) (pending_transactions s2)
                                 (accounts s2) of
                            (Inl e, txs', accs') \<Rightarrow>
                              Some (Inl e, s2\<lparr>pending_transactions := txs', accounts := accs'\<rparr>)
                          | (Inr u, txs', accs') \<Rightarrow>
                              Some (Inr (Some new_block),
                                    s2\<lparr>pending_transactions := [], accounts := accs'\<rparr>)))))))"

text \<open>
  \<^verbatim>\<open>Blockchain.create_account\<close>: \<open>private_key\<close> and \<open>address\<close> are the two strings
  the code derives from fresh random identifiers.
\<close>

definition create_account :: "real \<Rightarrow> string \<Rightarrow> string \<Rightarrow> ledger \<Rightarrow> account \<times> ledger" where
  "create_account now private_key address s =
     (let account = Account_init now address (Some private_key) 0 False 0
      in (account, s\<lparr>accounts := AList.update address account (accounts s)\<rparr>))"

subsection \<open>Lookups\<close>

text \<open>
  The lookups return their result and the ledger: \<^verbatim>\<open>get_transaction\<close> and
  \<^verbatim>\<open>get_account_transactions\<close> assign \<^verbatim>\<open>tx_dict['block_number'] = block.index\<close> on
  the dictionary that is stored in the block, not on a copy.
\<close>

fun scan_transactions :: "string \<Rightarrow> int \<Rightarrow> tx_dict list \<Rightarrow> (tx_dict \<times> tx_dict list) option" where
  "scan_transactions i n [] = None"
| "scan_transactions i n (d # ds) =
     (if tx_id d = i
      then (let d' = d\<lparr>tx_block_number := Some n\<rparr> in Some (d', d' # ds))
      else (case scan_transactions i n ds of
              None \<Rightarrow> None
            | Some (r, ds') \<Rightarrow> Some (r, d # ds')))"

fun scan_chain :: "string \<Rightarrow> block list \<Rightarrow> (tx_dict \<times> block list) option" where
  "scan_chain i [] = None"
| "scan_chain i (b # bs) =
     (case scan_transactions i (index b) (transactions b) of
        Some (r, ds') \<Rightarrow> Some (r, b\<lparr>transactions := ds'\<rparr> # bs)
      | None \<Rightarrow>
          (case scan_chain i bs of
             None \<Rightarrow> None
           | Some (r, bs') \<Rightarrow> Some (r, b # bs')))"

definition get_transaction :: "string \<Rightarrow> ledger \<Rightarrow> tx_dict option \<times> ledger" where
  "get_transaction i s =
     (case find (\<lambda>tx. tx_id tx = i) (pending_transactions s) of
        Some tx \<Rightarrow> (Some (to_dict tx), s)
      | None \<Rightarrow>
          (case scan_chain i (chain s) of
             Some (r, bs') \<Rightarrow> (Some r, s\<lparr>chain := bs'\<rparr>)
           | None \<Rightarrow> (None, s)))"

definition involves :: "string \<Rightarrow> transaction \<Rightarrow> bool" where
  "involves address tx = (tx_sender tx = address \<or> tx_recipient tx = address)"

definition stamp_block :: "string \<Rightarrow> block \<Rightarrow> block" where
  "stamp_block address b =
     b\<lparr>transactions :=
         map (\<lambda>d. if involves address d then d\<lparr>tx_block_number := Some (index b)\<rparr> else d)
           (transactions b)\<rparr>"

definition get_account_transactions :: "string \<Rightarrow> ledger \<Rightarrow> tx_dict list \<times> ledger" where
  "get_account_transactions address s =
     (let bs' = map (stamp_block address) (chain s);
          confirmed = concat (map (\<lambda>b. filter (involves address) (transactions b)) bs');
          pending = map to_dict (filter (involves address) (pending_transactions s))
      in (sort_key (\<lambda>d. - tx_timestamp d) (confirmed @ pending), s\<lparr>chain := bs'\<rparr>))"

definition get_block_by_number :: "int \<Rightarrow> ledger \<Rightarrow> block option \<times> ledger" where
  "get_block_by_number number s =
     (if 0 \<le> number \<and> number < int (length (chain s))
      then (Some (chain s ! nat number), s) else (None, s))"

definition get_block_by_hash :: "string \<Rightarrow> ledger \<Rightarrow> block option \<times> ledger" where
  "get_block_by_hash block_hash s = (find (\<lambda>b. hash b = block_hash) (chain s), s)"

text \<open>
  \<^verbatim>\<open>Blockchain.is_chain_valid\<close>: the loop over \<^verbatim>\<open>range(1, len(self.chain))\<close>
  returns \<^verbatim>\<open>False\<close> at the first block that fails one of its two tests.
\<close>

definition block_ok :: "hash_fn \<Rightarrow> block list \<Rightarrow> nat \<Rightarrow> bool" where
  "block_ok H c i =
     (if hash (c ! i) \<noteq> calculate_hash H (c ! i) then False
      else if previous_hash (c ! i) \<noteq> hash (c ! (i - 1)) then False
      else True)"

definition is_chain_valid :: "hash_fn \<Rightarrow> ledger \<Rightarrow> bool \<times> ledger" where
  "is_chain_valid H s = (list_all (block_ok H (chain s)) [1 ..< length (chain s)], s)"

subsection \<open>Network statistics\<close>

text \<open>
  The dictionary \<^verbatim>\<open>get_network_stats\<close> returns, with the latest block itself in
  the place of its \<^verbatim>\<open>to_dict()\<close> view.
\<close>

record network_stats =
  block_count :: nat
  latest_block :: "block option"
  pending_count :: nat
  average_block_time :: real
  tps :: real
  account_count :: nat
  stats_difficulty :: nat

definition block_times :: "block list \<Rightarrow> real list" where
  "block_times c =
     map (\<lambda>i. timestamp (c ! i) - timestamp (c ! (i - 1))) [1 ..< min 11 (length c)]"

definition get_network_stats :: "ledger \<Rightarrow> network_stats \<times> ledger" where
  "get_network_stats s =
     (let bt = block_times (chain s);
          avg_block_time = (if bt \<noteq> [] then sum_list bt / real (length bt) else 0);
          latest_tx_count = (if chain s \<noteq> [] then length (transactions (last (chain s))) else 0);
          tps_value = (if avg_block_time > 0 then real latest_tx_count / avg_block_time else 0)
      in (\<lparr> block_count = length (chain s),
             latest_block = (if chain s \<noteq> [] then Some (last (chain s)) else None),
             pending_count = length (pending_transactions s),
             average_block_time = avg_block_time,
             tps = tps_value,
             account_count = length (accounts s),
             stats_difficulty = (if chain s \<noteq> [] then difficulty (last (chain s)) else 0) \<rparr>, s))"

subsection \<open>Sequences of calls\<close>

text \<open>
  A client of the ledger makes one call after another on the shared instance. A call
  carries its arguments and the environment readings it consumes; \<open>perform\<close> gives the
  ledger the call leaves behind, whether it returned or raised (the HTTP layer catches
  the exception and goes on), and \<open>None\<close> when the call never returns. The hash
  function and the float addition of the machine are the same for all calls.
\<close>

datatype call =
    Stage string real real string string real string int int
  | Mine string real real string
  | CreateAccount real string string
  | GetTransaction string
  | GetAccountTransactions string
  | GetBlockByNumber int
  | GetBlockByHash string
  | GetNetworkStats
  | IsChainValid

fun perform :: "hash_fn \<Rightarrow> float_add \<Rightarrow> call \<Rightarrow> ledger \<Rightarrow> ledger option" where
  "perform H fadd (Stage uid now_tx now_acc sender recipient amount data gas_price gas_lim) s =
     Some (snd (stage_transaction fadd uid now_tx now_acc sender recipient amount data
                  gas_price gas_lim s))"
| "perform H fadd (Mine uid now_tx now_blk miner_address) s =
     map_option snd (mine_pending_transactions H uid now_tx now_blk miner_address s)"
| "perform H fadd (CreateAccount now private_key address) s =
     Some (snd (create_account now private_key address s))"
| "perform H fadd (GetTransaction i) s = Some (snd (get_transaction i s))"
| "perform H fadd (GetAccountTransactions address) s = Some (snd (get_account_transactions address s))"
| "perform H fadd (GetBlockByNumber number) s = Some (snd (get_block_by_number number s))"
| "perform H fadd (GetBlockByHash block_hash) s = Some (snd (get_block_by_hash block_hash s))"
| "perform H fadd GetNetworkStats s = Some (snd (get_network_stats s))"
| "perform H fadd IsChainValid s = Some (snd (is_chain_valid H s))"

fun run :: "hash_fn \<Rightarrow> float_add \<Rightarrow> call list \<Rightarrow> ledger \<Rightarrow> ledger option" where
  "run H fadd [] s = Some s"
| "run H fadd (c # cs) s =
     (case perform H fadd c s of None \<Rightarrow> None | Some s' \<Rightarrow> run H fadd cs s')"

text \<open>The calls that the specification names \<open>stage_transaction\<close> and \<open>mine_pending\<close>.\<close>

fun is_update :: "call \<Rightarrow> bool" where
  "is_update (Stage uid now_tx now_acc sender recipient amount data gas_price gas_lim) = True"
| "is_update (Mine uid now_tx now_blk miner_address) = True"
| "is_update c = False"

text \<open>
  A stand-in for the library hash, for evaluating the model on concrete ledgers: the
  digest has four leading zeros at every third nonce, so that the Proof-of-Work loop
  runs twice, and its tail records the block index and, for each transaction, whether
  a block number is stored in it.
\<close>

definition demo_hash :: hash_fn where
  "demo_hash c =
     (case c of (idx, txs, ts, prev, val, n) \<Rightarrow>
        (if n mod 3 = 2 then ''0000'' else ''ffff'')
        @ replicate (nat idx) (CHR ''1'')
        @ map (\<lambda>d. if tx_block_number d = None then CHR ''a'' else CHR ''b'') txs)"

subsection \<open>Predicates and concrete ledgers used by the properties\<close>

text \<open>The Proof-of-Work target: the stored hash starts with \<open>difficulty\<close> zeros.\<close>

definition meets_target :: "block \<Rightarrow> bool" where
  "meets_target b = (take (difficulty b) (hash b) = replicate (difficulty b) (CHR ''0''))"

definition hash_ok :: "hash_fn \<Rightarrow> block \<Rightarrow> bool" where
  "hash_ok H b = (hash b = calculate_hash H b)"

text \<open>
  What staging and mining keep true of the chain: it has a genesis block, every stored
  hash is the hash of its block, every block passes the two tests of
  \<^verbatim>\<open>is_chain_valid\<close>, and every block after the first meets its target.
\<close>

definition chain_inv :: "hash_fn \<Rightarrow> block list \<Rightarrow> bool" where
  "chain_inv H c =
     (c \<noteq> [] \<and> list_all (hash_ok H) c \<and> list_all (block_ok H c) [1 ..< length c]
      \<and> list_all meets_target (tl c))"

text \<open>The three development accounts of \<^verbatim>\<open>_create_initial_accounts\<close>.\<close>

definition ACCOUNT_1 :: string where
  "ACCOUNT_1 = ''0x1234567890abcdef1234567890abcdef12345678''"

definition ACCOUNT_2 :: string where
  "ACCOUNT_2 = ''0xabcdef1234567890abcdef1234567890abcdef12''"

definition ACCOUNT_3 :: string where
  "ACCOUNT_3 = ''0x9876543210fedcba9876543210fedcba98765432''"

text \<open>
  One transfer of 100 from the first account to the second, mined by the first account
  (the HTTP layer mines with the sender as miner after each submission), and the ledger
  these two calls produce from a fresh ledger under \<open>demo_hash\<close>. The evaluations on
  concrete ledgers take the exact sum \<open>(+)\<close> for the float addition: at their inputs the
  balance test falls the same way under either.
\<close>

definition demo_calls :: "call list" where
  "demo_calls = [Stage ''t1'' 1 1 ACCOUNT_1 ACCOUNT_2 100 [] 5 21000, Mine ''r1'' 2 3 ACCOUNT_1]"

definition demo_ledger :: ledger where
  "demo_ledger =
     \<lparr>chain =
        [\<lparr>index = 0, transactions = [], timestamp = 0, previous_hash = ''0'',
            validator = SYSTEM_ADDRESS, difficulty = 4, nonce = 0, hash = ''ffff'',
            block_gas_used = 0, block_gas_limit = 10000000\<rparr>,
         \<lparr>index = 1,
            transactions =
              [\<lparr>tx_id = ''0xt1'', tx_sender = ACCOUNT_1, tx_recipient = ACCOUNT_2,
                  tx_amount = 100, tx_fee = 21 / 200000, tx_nonce = 0, tx_timestamp = 1,
                  tx_data = [], tx_status = Pending, tx_block_number = None,
                  tx_gas_used = 21000, tx_gas_price = 5, tx_gas_limit = 21000\<rparr>,
               \<lparr>tx_id = ''0xr1'', tx_sender = SYSTEM_ADDRESS, tx_recipient = ACCOUNT_1,
                  tx_amount = 5, tx_fee = 21 / 200000, tx_nonce = 0, tx_timestamp = 2,
                  tx_data = [], tx_status = Confirmed, tx_block_number = None,
                  tx_gas_used = 21000, tx_gas_price = 5, tx_gas_limit = 21000\<rparr>],
            timestamp = 3, previous_hash = ''ffff'', validator = ACCOUNT_1,
            difficulty = 4, nonce = 2, hash = ''00001aa'',
            block_gas_used = 42000, block_gas_limit = 10000000\<rparr>],
      pending_transactions = [],
      accounts =
        [(ACCOUNT_1,
          \<lparr>acc_address = ACCOUNT_1,
             acc_private_key =
               Some ''0xabcdef1234567890abcdef1234567890abcdef1234567890abcdef1234567890'',
             acc_balance = 199980999979 / 200000, acc_is_contract = False, acc_nonce = 1,
             acc_transaction_count = 1, acc_last_activity = 2, acc_tokens = []\<rparr>),
         (ACCOUNT_2,
          \<lparr>acc_address = ACCOUNT_2,
             acc_private_key =
               Some ''0x1234567890abcdef1234567890abcdef1234567890abcdef1234567890abcdef'',
             acc_balance = 500100, acc_is_contract = False, acc_nonce = 0,
             acc_transaction_count = 0, acc_last_activity = 1, acc_tokens = []\<rparr>),
         (ACCOUNT_3,
          \<lparr>acc_address = ACCOUNT_3,
             acc_private_key =
               Some ''0xfedcba9876543210fedcba9876543210fedcba9876543210fedcba9876543210'',
             acc_balance = 750000, acc_is_contract = False, acc_nonce = 0,
             acc_transaction_count = 0, acc_last_activity = 0, acc_tokens = []\<rparr>)]\<rparr>"

text \<open>
  The ledger after the recipient test of \<^verbatim>\<open>add_transaction\<close>: an unknown recipient
  has been given an account with zero balance.
\<close>

definition with_recipient :: "real \<Rightarrow> transaction \<Rightarrow> ledger \<Rightarrow> ledger" where
  "with_recipient now tx s =
     (if map_of (accounts s) (tx_recipient tx) = None
      then s\<lparr>accounts := AList.update (tx_recipient tx)
              (Account_init now (tx_recipient tx) None 0 False 0) (accounts s)\<rparr>
      else s)"

text \<open>
  The transaction that the constructor returns when it returns one
  (\<open>Transaction_init_cases\<close>), and the reward transaction that
  \<^verbatim>\<open>mine_pending_transactions\<close> appends to the pool.
\<close>

definition Transaction_built ::
  "string \<Rightarrow> real \<Rightarrow> string \<Rightarrow> string \<Rightarrow> real \<Rightarrow> string \<Rightarrow> int \<Rightarrow> int \<Rightarrow> int
     \<Rightarrow> transaction" where
  "Transaction_built uid now sender recipient amount data n gas_price gas_limit =
     \<lparr> tx_id = ''0x'' @ uid, tx_sender = sender, tx_recipient = recipient,
       tx_amount = amount,
       tx_fee = real_of_int (min gas_limit (21000 + 68 * int (length data)) * gas_price)
                  / 1000000000,
       tx_nonce = n, tx_timestamp = now, tx_data = data, tx_status = Pending,
       tx_block_number = None,
       tx_gas_used = min gas_limit (21000 + 68 * int (length data)),
       tx_gas_price = gas_price, tx_gas_limit = gas_limit \<rparr>"

text \<open>The gas parameters and payloads at which the constructor raises \<open>OverflowError\<close>.\<close>

definition fee_overflows :: "int \<Rightarrow> int \<Rightarrow> string \<Rightarrow> bool" where
  "fee_overflows gas_price gas_lim data =
     (FLOAT_INT_LIMIT \<le> \<bar>min gas_lim (21000 + 68 * int (length data)) * gas_price\<bar>)"

definition reward_transaction :: "string \<Rightarrow> real \<Rightarrow> string \<Rightarrow> transaction" where
  "reward_transaction uid now miner_address =
     (Transaction_built uid now SYSTEM_ADDRESS miner_address 5 [] 0 5 21000)\<lparr>tx_status := Confirmed\<rparr>"

text \<open>
  An account's nonce, and the calls that put a new account at a given address
  (\<^verbatim>\<open>create_account\<close> derives the address from a fresh random key and stores the
  account without looking whether the address is taken).
\<close>

fun creates :: "string \<Rightarrow> call \<Rightarrow> bool" where
  "creates a (CreateAccount now private_key address) = (address = a)"
| "creates a c = False"

definition nonce_of :: "accounts \<Rightarrow> string \<Rightarrow> int option" where
  "nonce_of accs a = map_option acc_nonce (map_of accs a)"

text \<open>
  The derived fields of a transaction, as the constructor computes them from the
  payload and the gas parameters; and a ledger all of whose transactions, pending or
  stored in a block, have them so.
\<close>

definition fee_derived :: "transaction \<Rightarrow> bool" where
  "fee_derived t =
     (tx_gas_used t = min (tx_gas_limit t) (21000 + 68 * int (length (tx_data t)))
      \<and> tx_fee t = real_of_int (tx_gas_used t * tx_gas_price t) / 1000000000)"

definition all_fee_derived :: "ledger \<Rightarrow> bool" where
  "all_fee_derived s =
     (list_all fee_derived (pending_transactions s)
      \<and> list_all (\<lambda>b. list_all fee_derived (transactions b)) (chain s))"




definition debit_sender :: "transaction \<Rightarrow> accounts \<Rightarrow> accounts" where
  "debit_sender tx accs =
     (if tx_sender tx \<noteq> SYSTEM_ADDRESS then
        (case map_of accs (tx_sender tx) of
           Some sender \<Rightarrow>
             AList.update (tx_sender tx)
               (sender\<lparr>acc_balance := acc_balance sender - (tx_amount tx + tx_fee tx),
                       acc_transaction_count := acc_transaction_count sender + 1,
                       acc_last_activity := tx_timestamp tx\<rparr>) accs
         | None \<Rightarrow> accs)
      else accs)"

text \<open>
  The average block time as the specification words it, to compare with
  \<open>block_times\<close> of the source: the pairwise timestamp differences over the \<open>k\<close>
  most recent blocks of the chain, and their arithmetic mean (0 without a difference).
\<close>

definition spec_block_times :: "nat \<Rightarrow> block list \<Rightarrow> real list" where
  "spec_block_times k c =
     (let recent = drop (length c - k) c
      in map (\<lambda>i. timestamp (recent ! i) - timestamp (recent ! (i - 1))) [1 ..< length recent])"

definition spec_average_block_time :: "nat \<Rightarrow> block list \<Rightarrow> real" where
  "spec_average_block_time k c =
     (let bt = spec_block_times k c
      in if bt \<noteq> [] then sum_list bt / real (length bt) else 0)"

text \<open>
  Eleven rounds of one transfer and one mined block: the blocks are stamped at the
  times 1 to 10, and the last one at 110.
\<close>

definition transfer_and_mine :: "nat \<Rightarrow> real \<Rightarrow> call list" where
  "transfer_and_mine k now =
     [Stage (replicate k (CHR ''a'')) now now ACCOUNT_1 ACCOUNT_2 1 [] 5 21000,
      Mine (replicate k (CHR ''b'')) now now ACCOUNT_1]"

definition twelve_block_calls :: "call list" where
  "twelve_block_calls =
     concat (map (\<lambda>k. transfer_and_mine k (real k)) [1 ..< 11]) @ transfer_and_mine 11 110"

section \<open>Properties\<close>

subsection \<open>The transaction constructor\<close>

text \<open>
  The constructor raises exactly when the product of gas used and gas price is beyond
  the float range, and returns the transaction with the derived gas and fee otherwise.
  The reward transaction, with the gas price 5 and the gas limit 21000, is always built.
\<close>

text \<open>The bound of \<open>int_to_float\<close> as a numeral, for evaluation.\<close>

lemma FLOAT_INT_LIMIT_numeral [code]:
  "FLOAT_INT_LIMIT =
     179769313486231580793728971405303415079934132710037826936173778980444968292764750946649017977587207096330286416692887910946555547851940402630657488671505820681908902000708383676273854845817711531764475730270069855571366959622842914819860834936475292719074168444365510704342711559699508093042880177904174497792"
  by (simp add: FLOAT_INT_LIMIT_def)

lemma gas_used_min:
  "min (if d \<noteq> [] then 21000 + int (length d) * 68 else 21000) gl
     = min gl (21000 + 68 * int (length d))"
  by (simp add: min.commute mult.commute)

lemma Transaction_init_cases:
  "Transaction_init uid now a b amt fee d n gp gl =
     (if fee_overflows gp gl d then Inl OverflowError
      else Inr (Transaction_built uid now a b amt d n gp gl))"
proof -
  have "tx_gas_used (if d \<noteq> [] then t\<lparr>tx_gas_used := 21000 + int (length d) * 68\<rparr>
                      else t\<lparr>tx_gas_used := 21000\<rparr>)
          = (if d \<noteq> [] then 21000 + int (length d) * 68 else 21000)" for t :: transaction
    by simp
  then show ?thesis
    unfolding Transaction_init_def Transaction_built_def int_to_float_def fee_overflows_def
      Let_def gas_used_min[symmetric]
    by (cases "d = []") simp_all
qed

lemma Transaction_init_reward:
  "Transaction_init uid now SYSTEM_ADDRESS m 5 0 [] 0 5 21000
     = Inr (Transaction_built uid now SYSTEM_ADDRESS m 5 [] 0 5 21000)"
  by (simp add: Transaction_init_cases fee_overflows_def FLOAT_INT_LIMIT_def)

lemma stage_transaction_unfold:
  "stage_transaction fadd uid t1 t2 a b amt d gp gl s =
     (if fee_overflows gp gl d then (Inl OverflowError, s)
      else add_transaction fadd t2 (Transaction_built uid t1 a b amt d 0 gp gl) s)"
  by (simp add: stage_transaction_def Transaction_init_cases)

subsection \<open>The Proof-of-Work loop\<close>

text \<open>
  The loop is a least fixed point, so what holds of its result is proved by the
  fixed-point induction of \<open>mine_loop\<close>: the search changes the nonce and the hash only,
  keeps the stored hash equal to the recomputed one, and stops at the target.
\<close>

lemma mine_loop_fields:
  assumes "mine_loop H b = Some b'"
  shows "index b' = index b \<and> transactions b' = transactions b \<and> timestamp b' = timestamp b
       \<and> previous_hash b' = previous_hash b \<and> validator b' = validator b
       \<and> difficulty b' = difficulty b"
  using assms
proof (induction rule: mine_loop.raw_induct[rotated 1, consumes 1])
  case (1 mine_loop H b b')
  then show ?case
    by (auto simp: Let_def split: if_splits)
qed

lemma mine_loop_hash:
  assumes "mine_loop H b = Some b'" and "hash b = calculate_hash H b"
  shows "hash b' = calculate_hash H b'"
  using assms
proof (induction rule: mine_loop.raw_induct[rotated 1, consumes 1])
  case (1 mine_loop H b b')
  show ?case
  proof (cases "take (difficulty b) (hash b) \<noteq> replicate (difficulty b) (CHR ''0'')")
    case True
    with 1 show ?thesis
      by (auto simp: Let_def calculate_hash_def block_fields_def)
  next
    case False
    with 1 show ?thesis by simp
  qed
qed

lemma mine_loop_target:
  assumes "mine_loop H b = Some b'"
  shows "take (difficulty b') (hash b') = replicate (difficulty b') (CHR ''0'')"
  using assms
proof (induction rule: mine_loop.raw_induct[rotated 1, consumes 1])
  case (1 mine_loop H b b')
  then show ?case
    by (auto simp: Let_def split: if_splits)
qed

lemma Block_init_hash:
  "hash (Block_init H i txs ts p v d) = calculate_hash H (Block_init H i txs ts p v d)"
  by (simp add: Block_init_def Let_def calculate_hash_def block_fields_def)

lemma Block_init_fields:
  "index (Block_init H i txs ts p v d) = i"
  "transactions (Block_init H i txs ts p v d) = txs"
  "timestamp (Block_init H i txs ts p v d) = ts"
  "previous_hash (Block_init H i txs ts p v d) = p"
  "validator (Block_init H i txs ts p v d) = v"
  "difficulty (Block_init H i txs ts p v d) = d"
  by (simp_all add: Block_init_def Let_def)

lemma mine_block_result:
  assumes "mine_block H None (Block_init H i txs ts p v d) = Some b"
  shows "index b = i" "transactions b = txs" "timestamp b = ts" "previous_hash b = p"
    "validator b = v" "difficulty b = d" "hash b = calculate_hash H b"
    "take (difficulty b) (hash b) = replicate (difficulty b) (CHR ''0'')"
proof -
  from assms have m: "mine_loop H (Block_init H i txs ts p v d) = Some b"
    by (simp add: mine_block_def)
  from mine_loop_fields[OF m]
  show "index b = i" "transactions b = txs" "timestamp b = ts" "previous_hash b = p"
    "validator b = v" "difficulty b = d"
    by (simp_all add: Block_init_fields)
  show "hash b = calculate_hash H b"
    by (rule mine_loop_hash[OF m Block_init_hash])
  show "take (difficulty b) (hash b) = replicate (difficulty b) (CHR ''0'')"
    by (rule mine_loop_target[OF m])
qed

subsection \<open>The chain under staging and mining\<close>

lemma add_transaction_chain: "chain (snd (add_transaction fadd now tx s)) = chain s"
  by (simp add: add_transaction_def Let_def split: option.splits)

lemma stage_transaction_chain:
  "chain (snd (stage_transaction fadd uid t1 t2 a b amt d gp gl s)) = chain s"
  by (simp add: stage_transaction_unfold add_transaction_chain)

text \<open>
  A call of \<^verbatim>\<open>mine_pending_transactions\<close> that returns or raises leaves the chain
  as it was or longer by one mined block, which holds the pool and the reward
  transaction as \<^verbatim>\<open>to_dict\<close> copied them.
\<close>

lemma mine_chain:
  assumes "mine_pending_transactions H uid t1 t2 m s = Some (r, s')"
  shows "chain s' = chain s \<or>
         (\<exists>b. chain s' = chain s @ [b] \<and> chain s \<noteq> []
            \<and> index b = int (length (chain s))
            \<and> previous_hash b = hash (last (chain s))
            \<and> hash b = calculate_hash H b
            \<and> difficulty b = 4
            \<and> take (difficulty b) (hash b) = replicate (difficulty b) (CHR ''0'')
            \<and> transactions b =
                map to_dict (pending_transactions s @
                  [(Transaction_built uid t1 SYSTEM_ADDRESS m 5 [] 0 5 21000)
                     \<lparr>tx_status := Confirmed\<rparr>]))"
proof (cases "pending_transactions s = []")
  case True
  with assms show ?thesis by (simp add: mine_pending_transactions_def Transaction_init_reward)
next
  case False
  show ?thesis
  proof (cases "chain s = []")
    case True
    with assms False show ?thesis
      by (auto simp: mine_pending_transactions_def Transaction_init_reward get_latest_block_def Let_def)
  next
    case ne: False
    let ?reward = "(Transaction_built uid t1 SYSTEM_ADDRESS m 5 [] 0 5 21000)\<lparr>tx_status := Confirmed\<rparr>"
    let ?B = "Block_init H (int (length (chain s)))
                (map to_dict (pending_transactions s @ [?reward])) t2 (hash (last (chain s))) m 4"
    from assms False ne obtain b where mb: "mine_block H None ?B = Some b"
      and c: "chain s' = chain s @ [b]"
      by (auto simp: mine_pending_transactions_def Transaction_init_reward get_latest_block_def Let_def
               split: option.splits prod.splits sum.splits)
    note mine_block_result[OF mb]
    with c ne show ?thesis by auto
  qed
qed

lemma block_ok_append:
  assumes "1 \<le> i" "i < length c"
  shows "block_ok H (c @ [b]) i = block_ok H c i"
proof -
  from assms have "i - 1 < length c" by arith
  with assms show ?thesis by (simp add: block_ok_def nth_append)
qed

lemma block_ok_new:
  assumes "c \<noteq> []" "hash b = calculate_hash H b" "previous_hash b = hash (last c)"
  shows "block_ok H (c @ [b]) (length c)"
  using assms by (simp add: block_ok_def nth_append last_conv_nth)

lemma chain_inv_append:
  assumes "chain_inv H c" "hash b = calculate_hash H b" "previous_hash b = hash (last c)"
    "take (difficulty b) (hash b) = replicate (difficulty b) (CHR ''0'')"
  shows "chain_inv H (c @ [b])"
proof -
  from assms(1) have ne: "c \<noteq> []" and h: "list_all (hash_ok H) c"
    and l: "list_all (block_ok H c) [1 ..< length c]" and t: "list_all meets_target (tl c)"
    by (simp_all add: chain_inv_def)
  have l': "list_all (block_ok H (c @ [b])) [1 ..< length c]"
    using l by (simp add: list_all_iff block_ok_append)
  have len: "1 \<le> length c" using ne by (cases c) simp_all
  have "[1 ..< length (c @ [b])] = [1 ..< length c] @ [length c]"
    using len by simp
  with l' block_ok_new[OF ne assms(2,3)]
  have "list_all (block_ok H (c @ [b])) [1 ..< length (c @ [b])]" by simp
  moreover have "list_all (hash_ok H) (c @ [b])"
    using h assms(2) by (simp add: hash_ok_def)
  moreover have "list_all meets_target (tl (c @ [b]))"
    using t ne assms(4) by (simp add: meets_target_def)
  ultimately show ?thesis using ne by (simp add: chain_inv_def)
qed

lemma chain_inv_init: "chain_inv H (chain (Blockchain_init H t0 t1 t2 t3))"
  by (simp add: Blockchain_init_def create_initial_accounts_def create_genesis_block_def
      Let_def chain_inv_def hash_ok_def calculate_hash_def block_fields_def Block_init_def)

lemma perform_update_chain_inv:
  assumes "perform H fadd c s = Some s'" "is_update c" "chain_inv H (chain s)"
  shows "chain_inv H (chain s')"
proof (cases c)
  case (Stage uid t1 t2 a b amt d gp gl)
  with assms show ?thesis by (auto simp: stage_transaction_chain)
next
  case (Mine uid t1 t2 m)
  with assms(1) obtain r where "mine_pending_transactions H uid t1 t2 m s = Some (r, s')"
    by auto
  from mine_chain[OF this] show ?thesis
  proof
    assume "chain s' = chain s"
    with assms(3) show ?thesis by simp
  next
    assume "\<exists>b. chain s' = chain s @ [b] \<and> chain s \<noteq> []
            \<and> index b = int (length (chain s))
            \<and> previous_hash b = hash (last (chain s))
            \<and> hash b = calculate_hash H b
            \<and> difficulty b = 4
            \<and> take (difficulty b) (hash b) = replicate (difficulty b) (CHR ''0'')
            \<and> transactions b =
                map to_dict (pending_transactions s @
                  [(Transaction_built uid t1 SYSTEM_ADDRESS m 5 [] 0 5 21000)
                     \<lparr>tx_status := Confirmed\<rparr>])"
    then obtain b where "chain s' = chain s @ [b]" "previous_hash b = hash (last (chain s))"
      "hash b = calculate_hash H b"
      "take (difficulty b) (hash b) = replicate (difficulty b) (CHR ''0'')"
      by blast
    with chain_inv_append[OF assms(3), of b] show ?thesis by simp
  qed
qed (use assms in simp_all)

lemma run_update_chain_inv:
  assumes "run H fadd cs s = Some s'" "list_all is_update cs" "chain_inv H (chain s)"
  shows "chain_inv H (chain s')"
  using assms
proof (induction cs arbitrary: s)
  case Nil
  then show ?case by simp
next
  case (Cons c cs)
  from Cons.prems(1) obtain s1 where p: "perform H fadd c s = Some s1" and r: "run H fadd cs s1 = Some s'"
    by (auto split: option.splits)
  from perform_update_chain_inv[OF p] Cons.prems have "chain_inv H (chain s1)" by simp
  with Cons.IH[OF r] Cons.prems(2) show ?case by simp
qed

lemma tampered_block_detected:
  assumes "1 \<le> i" "i < length c" "hash b' \<noteq> calculate_hash H b'"
  shows "\<not> list_all (block_ok H (c[i := b'])) [1 ..< length (c[i := b'])]"
proof -
  have "i \<in> set [1 ..< length (c[i := b'])]" using assms by simp
  moreover have "\<not> block_ok H (c[i := b']) i"
    using assms by (simp add: block_ok_def)
  ultimately show ?thesis by (auto simp: list_all_iff)
qed

lemma demo_run: "run demo_hash (+) demo_calls (Blockchain_init demo_hash 0 0 0 0) = Some demo_ledger"
  by code_simp

text \<open>
  \<^bold>\<open>C1.\<close> A chain that staging and mining alone have produced from a fresh ledger
  passes \<^verbatim>\<open>is_chain_valid\<close>, and it fails the check once a block other than the
  genesis block has its index, timestamp, previous hash, nonce or transaction records
  changed while its stored hash stays. The calls may return or raise; the sequences of
  successful calls are among them. The library hash is a parameter, and the second half
  rests on the one fact about it that the claim presupposes: it does not map the changed
  fields and the original fields of that block to the same digest.
\<close>

theorem chain_valid_and_tamper_evident:
  assumes "run H fadd calls (Blockchain_init H t0 t1 t2 t3) = Some s" and "list_all is_update calls"
  shows "fst (is_chain_valid H s) \<and>
         (\<forall>i b'. 1 \<le> i \<and> i < length (chain s) \<and> hash b' = hash (chain s ! i)
            \<and> (index b' \<noteq> index (chain s ! i) \<or> timestamp b' \<noteq> timestamp (chain s ! i)
               \<or> previous_hash b' \<noteq> previous_hash (chain s ! i)
               \<or> nonce b' \<noteq> nonce (chain s ! i)
               \<or> transactions b' \<noteq> transactions (chain s ! i))
            \<and> (H (block_fields b') = H (block_fields (chain s ! i))
                 \<longrightarrow> block_fields b' = block_fields (chain s ! i))
            \<longrightarrow> \<not> fst (is_chain_valid H (s\<lparr>chain := (chain s)[i := b']\<rparr>)))"
proof -
  have inv: "chain_inv H (chain s)"
    by (rule run_update_chain_inv[OF assms chain_inv_init])
  then have v: "fst (is_chain_valid H s)"
    by (simp add: is_chain_valid_def chain_inv_def)
  have "\<not> fst (is_chain_valid H (s\<lparr>chain := (chain s)[i := b']\<rparr>))"
    if i: "1 \<le> i" "i < length (chain s)" and h: "hash b' = hash (chain s ! i)"
      and d: "index b' \<noteq> index (chain s ! i) \<or> timestamp b' \<noteq> timestamp (chain s ! i)
               \<or> previous_hash b' \<noteq> previous_hash (chain s ! i)
               \<or> nonce b' \<noteq> nonce (chain s ! i)
               \<or> transactions b' \<noteq> transactions (chain s ! i)"
      and c: "H (block_fields b') = H (block_fields (chain s ! i))
                 \<longrightarrow> block_fields b' = block_fields (chain s ! i)"
    for i b'
  proof -
    from d have "block_fields b' \<noteq> block_fields (chain s ! i)"
      by (auto simp: block_fields_def)
    with c have "H (block_fields b') \<noteq> H (block_fields (chain s ! i))" by blast
    moreover from inv i have "hash (chain s ! i) = calculate_hash H (chain s ! i)"
      by (simp add: chain_inv_def list_all_length hash_ok_def)
    ultimately have "hash b' \<noteq> calculate_hash H b'"
      using h by (simp add: calculate_hash_def)
    from tampered_block_detected[OF i this] show ?thesis
      by (simp add: is_chain_valid_def)
  qed
  with v show ?thesis by blast
qed

text \<open>
  The theorem at the demonstration ledger: the chain of two blocks is valid, and it is
  not once the nonce stored in block 1 is changed from 2 to 3.
\<close>

theorem chain_valid_and_tamper_evident_witness:
  "run demo_hash (+) demo_calls (Blockchain_init demo_hash 0 0 0 0) = Some demo_ledger
   \<and> list_all is_update demo_calls
   \<and> fst (is_chain_valid demo_hash demo_ledger)
   \<and> \<not> fst (is_chain_valid demo_hash
             (demo_ledger\<lparr>chain := (chain demo_ledger)[1 := (chain demo_ledger ! 1)\<lparr>nonce := 3\<rparr>]\<rparr>))"
proof -
  let ?b = "chain demo_ledger ! 1"
  let ?b' = "?b\<lparr>nonce := 3\<rparr>"
  have u: "list_all is_update demo_calls" by (simp add: demo_calls_def)
  note c = chain_valid_and_tamper_evident[OF demo_run u]
  from c have v: "fst (is_chain_valid demo_hash demo_ledger)" by blast
  from c have "1 \<le> (1::nat) \<and> 1 < length (chain demo_ledger) \<and> hash ?b' = hash ?b
            \<and> (index ?b' \<noteq> index ?b \<or> timestamp ?b' \<noteq> timestamp ?b
               \<or> previous_hash ?b' \<noteq> previous_hash ?b \<or> nonce ?b' \<noteq> nonce ?b
               \<or> transactions ?b' \<noteq> transactions ?b)
            \<and> (demo_hash (block_fields ?b') = demo_hash (block_fields ?b)
                 \<longrightarrow> block_fields ?b' = block_fields ?b)
            \<longrightarrow> \<not> fst (is_chain_valid demo_hash (demo_ledger\<lparr>chain := (chain demo_ledger)[1 := ?b']\<rparr>))"
    by blast
  then have "\<not> fst (is_chain_valid demo_hash (demo_ledger\<lparr>chain := (chain demo_ledger)[1 := ?b']\<rparr>))"
    by (simp add: demo_ledger_def demo_hash_def block_fields_def)
  with v u demo_run show ?thesis by simp
qed

subsection \<open>Proof-of-Work of the blocks in the chain\<close>

text \<open>
  Against \<^bold>\<open>C8\<close> as stated. The genesis block of a fresh ledger under
  \<open>demo_hash\<close> has the stored hash \<open>ffff\<close> and difficulty 4:
  \<^verbatim>\<open>create_genesis_block\<close> hashes the block once, at nonce 0, and does not call
  \<^verbatim>\<open>mine_block\<close>.
\<close>

theorem genesis_block_not_mined:
  "\<not> meets_target (hd (chain (Blockchain_init demo_hash 0 0 0 0)))"
  by code_simp

text \<open>
  \<^bold>\<open>C8\<close>, as amended. In a chain that staging and mining alone have produced from a
  fresh ledger, the stored hash of every block, the genesis block too, is the hash
  recomputed from the block's own fields, and every block after the genesis block has a
  stored hash that starts with \<open>difficulty\<close> zeros.
\<close>

theorem mined_blocks_meet_target:
  assumes "run H fadd calls (Blockchain_init H t0 t1 t2 t3) = Some s" and "list_all is_update calls"
  shows "list_all (hash_ok H) (chain s) \<and> list_all meets_target (tl (chain s))"
proof -
  have "chain_inv H (chain s)"
    by (rule run_update_chain_inv[OF assms chain_inv_init])
  then show ?thesis by (simp add: chain_inv_def)
qed

theorem mined_blocks_meet_target_witness:
  "run demo_hash (+) demo_calls (Blockchain_init demo_hash 0 0 0 0) = Some demo_ledger
   \<and> list_all is_update demo_calls
   \<and> list_all (hash_ok demo_hash) (chain demo_ledger)
   \<and> list_all meets_target (tl (chain demo_ledger))
   \<and> length (chain demo_ledger) = 2"
proof -
  have u: "list_all is_update demo_calls" by (simp add: demo_calls_def)
  from mined_blocks_meet_target[OF demo_run u] demo_run u show ?thesis
    by (simp add: demo_ledger_def)
qed

subsection \<open>Staging\<close>

lemma map_of_update: "map_of (AList.update k v al) = (map_of al)(k \<mapsto> v)"
  by (rule update_conv')

lemma add_transaction_unknown:
  assumes "map_of (accounts s) (tx_sender tx) = None"
  shows "add_transaction fadd now tx s = (Inl UnknownSender, s)"
  using assms by (simp add: add_transaction_def)

lemma with_recipient_sender:
  assumes "map_of (accounts s) (tx_sender tx) = Some a"
  shows "map_of (accounts (with_recipient now tx s)) (tx_sender tx) = Some a"
  using assms by (auto simp: with_recipient_def map_of_update)

lemma add_transaction_known:
  assumes "map_of (accounts s) (tx_sender tx) = Some a"
  shows "add_transaction fadd now tx s =
     (if acc_balance a < fadd (tx_amount tx) (tx_fee tx)
      then (Inl InsufficientBalance, with_recipient now tx s)
      else (Inr (tx_id tx),
            (with_recipient now tx s)
              \<lparr>pending_transactions := pending_transactions s @ [tx\<lparr>tx_nonce := acc_nonce a\<rparr>],
               accounts := AList.update (tx_sender tx) (a\<lparr>acc_nonce := acc_nonce a + 1\<rparr>)
                             (accounts (with_recipient now tx s))\<rparr>))"
proof -
  have p: "pending_transactions (with_recipient now tx s) = pending_transactions s"
    by (simp add: with_recipient_def)
  from with_recipient_sender[OF assms, of now] assms p show ?thesis
    unfolding add_transaction_def with_recipient_def[symmetric] 
    by (simp add: Let_def)
qed

lemma Transaction_built_fields:
  "tx_id (Transaction_built uid now a b amt d n gp gl) = ''0x'' @ uid"
  "tx_sender (Transaction_built uid now a b amt d n gp gl) = a"
  "tx_recipient (Transaction_built uid now a b amt d n gp gl) = b"
  "tx_amount (Transaction_built uid now a b amt d n gp gl) = amt"
  "tx_data (Transaction_built uid now a b amt d n gp gl) = d"
  "tx_gas_price (Transaction_built uid now a b amt d n gp gl) = gp"
  "tx_gas_limit (Transaction_built uid now a b amt d n gp gl) = gl"
  "tx_status (Transaction_built uid now a b amt d n gp gl) = Pending"
  "tx_block_number (Transaction_built uid now a b amt d n gp gl) = None"
  by (simp_all add: Transaction_built_def)

lemma Transaction_built_gas_used:
  "tx_gas_used (Transaction_built uid now a b amt d n gp gl) = min gl (21000 + 68 * int (length d))"
  by (simp add: Transaction_built_def min.commute mult.commute)

lemma Transaction_built_fee:
  "tx_fee (Transaction_built uid now a b amt d n gp gl) =
     real_of_int (min gl (21000 + 68 * int (length d)) * gp) / 1000000000"
  by (simp add: Transaction_built_def min.commute mult.commute)

lemma with_recipient_frame:
  "chain (with_recipient now tx s) = chain s"
  "pending_transactions (with_recipient now tx s) = pending_transactions s"
  by (simp_all add: with_recipient_def)

lemma with_recipient_other:
  assumes "map_of (accounts s) k = Some a"
  shows "map_of (accounts (with_recipient now tx s)) k = Some a"
  using assms by (auto simp: with_recipient_def map_of_update)

lemma with_recipient_creates:
  assumes "map_of (accounts s) (tx_recipient tx) = None"
  shows "map_of (accounts (with_recipient now tx s)) (tx_recipient tx)
           = Some (Account_init now (tx_recipient tx) None 0 False 0)"
  using assms by (simp add: with_recipient_def map_of_update)

text \<open>
  Against \<^bold>\<open>C5\<close> as stated. On the fresh ledger, a staging from an address without an
  account at the gas price \<open>10\<^sup>4\<^sup>0\<^sup>0\<close> does not raise the unknown-sender error: the
  constructor raises \<open>OverflowError\<close> before \<^verbatim>\<open>add_transaction\<close> looks at the sender,
  and the ledger is as it was.
\<close>

theorem overflow_before_sender_test:
  "map_of (accounts (Blockchain_init demo_hash 0 0 0 0)) ''0xnobody'' = None
   \<and> stage_transaction (+) ''t1'' 1 1 ''0xnobody'' ACCOUNT_1 100 [] (10 ^ 400) 21000
         (Blockchain_init demo_hash 0 0 0 0)
       = (Inl OverflowError, Blockchain_init demo_hash 0 0 0 0)
   \<and> fst (stage_transaction (+) ''t1'' 1 1 ''0xnobody'' ACCOUNT_1 100 [] (10 ^ 400) 21000
         (Blockchain_init demo_hash 0 0 0 0)) \<noteq> Inl UnknownSender"
proof -
  have o: "fee_overflows (10 ^ 400) 21000 []"
    by (simp add: fee_overflows_def FLOAT_INT_LIMIT_def)
  have "map_of (accounts (Blockchain_init demo_hash 0 0 0 0)) ''0xnobody'' = None"
    by code_simp
  with o show ?thesis by (simp add: stage_transaction_unfold)
qed

text \<open>
  \<^bold>\<open>C5\<close>, as amended. When the constructor raises \<open>OverflowError\<close>, the staging
  raises it and leaves the ledger as it was. Otherwise the staging raises the
  unknown-sender error exactly when the sender has no account; for a sender that has
  one, it raises the insufficient-balance error exactly when the balance is below the
  float sum of the amount and the fee, the fee being the one the constructor derived
  from the gas parameters. A staging that raises leaves the pending pool as it was.
\<close>

theorem staging_failure_cases:
  "(fee_overflows gp gl d \<longrightarrow>
      stage_transaction fadd uid t1 t2 a b amt d gp gl s = (Inl OverflowError, s))
   \<and> (\<not> fee_overflows gp gl d \<longrightarrow>
        (fst (stage_transaction fadd uid t1 t2 a b amt d gp gl s) = Inl UnknownSender
           \<longleftrightarrow> map_of (accounts s) a = None)
        \<and> (\<forall>acc. map_of (accounts s) a = Some acc \<longrightarrow>
             (fst (stage_transaction fadd uid t1 t2 a b amt d gp gl s) = Inl InsufficientBalance
                \<longleftrightarrow> acc_balance acc
                      < fadd amt
                          (real_of_int (min gl (21000 + 68 * int (length d)) * gp) / 1000000000))))
   \<and> (\<forall>e. fst (stage_transaction fadd uid t1 t2 a b amt d gp gl s) = Inl e \<longrightarrow>
        pending_transactions (snd (stage_transaction fadd uid t1 t2 a b amt d gp gl s))
          = pending_transactions s)"
proof (cases "fee_overflows gp gl d")
  case True
  then show ?thesis by (simp add: stage_transaction_unfold)
next
  case no: False
  show ?thesis
  proof (cases "map_of (accounts s) a")
    case None
    with no have "stage_transaction fadd uid t1 t2 a b amt d gp gl s = (Inl UnknownSender, s)"
      by (simp add: stage_transaction_unfold add_transaction_unknown Transaction_built_fields)
    with None no show ?thesis by simp
  next
    case (Some acc)
    let ?tx = "Transaction_built uid t1 a b amt d 0 gp gl"
    from Some have "map_of (accounts s) (tx_sender ?tx) = Some acc"
      by (simp add: Transaction_built_fields)
    from add_transaction_known[OF this, of fadd t2] Some no show ?thesis
      by (simp add: stage_transaction_unfold Transaction_built_fields Transaction_built_fee
          with_recipient_frame)
  qed
qed

text \<open>
  The theorem on the fresh ledger: the gas price \<open>10\<^sup>4\<^sup>0\<^sup>0\<close> overflows; at the gas
  price 5, an address without an account is an unknown sender, and the second
  development account, whose balance is 500000, cannot stage 600000.
\<close>

theorem staging_failure_cases_witness:
  "fee_overflows (10 ^ 400) 21000 []
   \<and> stage_transaction (+) ''t0'' 1 1 ACCOUNT_2 ACCOUNT_1 100 [] (10 ^ 400) 21000
         (Blockchain_init demo_hash 0 0 0 0)
       = (Inl OverflowError, Blockchain_init demo_hash 0 0 0 0)
   \<and> \<not> fee_overflows 5 21000 []
   \<and> map_of (accounts (Blockchain_init demo_hash 0 0 0 0)) ''0xnobody'' = None
   \<and> fst (stage_transaction (+) ''t1'' 1 1 ''0xnobody'' ACCOUNT_1 100 [] 5 21000
            (Blockchain_init demo_hash 0 0 0 0)) = Inl UnknownSender
   \<and> map_of (accounts (Blockchain_init demo_hash 0 0 0 0)) ACCOUNT_2
       = Some (Account_init 0 ACCOUNT_2
           (Some ''0x1234567890abcdef1234567890abcdef1234567890abcdef1234567890abcdef'')
           500000 False 0)
   \<and> fst (stage_transaction (+) ''t2'' 1 1 ACCOUNT_2 ACCOUNT_1 600000 [] 5 21000
            (Blockchain_init demo_hash 0 0 0 0)) = Inl InsufficientBalance
   \<and> pending_transactions (snd (stage_transaction (+) ''t2'' 1 1 ACCOUNT_2 ACCOUNT_1 600000 [] 5 21000
            (Blockchain_init demo_hash 0 0 0 0)))
       = pending_transactions (Blockchain_init demo_hash 0 0 0 0)"
proof -
  let ?s = "Blockchain_init demo_hash 0 0 0 0"
  let ?acc = "Account_init 0 ACCOUNT_2
           (Some ''0x1234567890abcdef1234567890abcdef1234567890abcdef1234567890abcdef'')
           500000 False 0"
  have o: "fee_overflows (10 ^ 400) 21000 []" by (simp add: fee_overflows_def FLOAT_INT_LIMIT_def)
  have no: "\<not> fee_overflows 5 21000 []" by (simp add: fee_overflows_def FLOAT_INT_LIMIT_def)
  have n: "map_of (accounts ?s) ''0xnobody'' = None" by code_simp
  have k: "map_of (accounts ?s) ACCOUNT_2 = Some ?acc" by code_simp
  have b: "acc_balance ?acc
             < 600000 + real_of_int (min 21000 (21000 + 68 * int (length ([]::string))) * 5) / 1000000000"
    by (simp add: Account_init_def)
  note t0 = staging_failure_cases[of "10 ^ 400" 21000 "[]" "(+)" "''t0''" 1 1 ACCOUNT_2 ACCOUNT_1 100 ?s]
  note t1 = staging_failure_cases[of 5 21000 "[]" "(+)" "''t1''" 1 1 "''0xnobody''" ACCOUNT_1 100 ?s]
  note t2 = staging_failure_cases[of 5 21000 "[]" "(+)" "''t2''" 1 1 ACCOUNT_2 ACCOUNT_1 600000 ?s]
  from t0 o have v: "stage_transaction (+) ''t0'' 1 1 ACCOUNT_2 ACCOUNT_1 100 [] (10 ^ 400) 21000 ?s
      = (Inl OverflowError, ?s)" by blast
  from t1 no n have u: "fst (stage_transaction (+) ''t1'' 1 1 ''0xnobody'' ACCOUNT_1 100 [] 5 21000 ?s)
      = Inl UnknownSender" by blast
  from t2 no k b have i: "fst (stage_transaction (+) ''t2'' 1 1 ACCOUNT_2 ACCOUNT_1 600000 [] 5 21000 ?s)
      = Inl InsufficientBalance" by blast
  with t2 have "pending_transactions (snd (stage_transaction (+) ''t2'' 1 1 ACCOUNT_2 ACCOUNT_1 600000 [] 5 21000 ?s))
       = pending_transactions ?s" by blast
  with o v no n u k i show ?thesis by blast
qed

text \<open>
  \<^bold>\<open>C10.\<close> A staging that raises the insufficient-balance error for a recipient
  that had no account leaves that recipient with an account of zero balance: the
  account is created before the balance test. The sender's account (its nonce too),
  the pending pool and the chain are as before.
\<close>

theorem failed_staging_creates_recipient:
  assumes "stage_transaction fadd uid t1 t2 a b amt d gp gl s = (Inl InsufficientBalance, s')"
    and "map_of (accounts s) b = None"
  shows "(\<exists>acc. map_of (accounts s') b = Some acc \<and> acc_balance acc = 0)
         \<and> map_of (accounts s') a = map_of (accounts s) a
         \<and> pending_transactions s' = pending_transactions s
         \<and> chain s' = chain s"
proof (cases "map_of (accounts s) a")
  case None
  then have "fst (stage_transaction fadd uid t1 t2 a b amt d gp gl s) = Inl UnknownSender
      \<or> fst (stage_transaction fadd uid t1 t2 a b amt d gp gl s) = Inl OverflowError"
    by (simp add: stage_transaction_unfold add_transaction_unknown Transaction_built_fields)
  with assms show ?thesis by auto
next
  case (Some acc)
  let ?tx = "Transaction_built uid t1 a b amt d 0 gp gl"
  from Some have k: "map_of (accounts s) (tx_sender ?tx) = Some acc"
    by (simp add: Transaction_built_fields)
  from assms(2) have r: "map_of (accounts s) (tx_recipient ?tx) = None"
    by (simp add: Transaction_built_fields)
  from add_transaction_known[OF k, of fadd t2] assms(1)
  have s': "s' = with_recipient t2 ?tx s"
    by (simp add: stage_transaction_unfold split: if_splits)
  from with_recipient_creates[OF r, of t2]
  have "map_of (accounts s') b = Some (Account_init t2 b None 0 False 0)"
    by (simp add: s' Transaction_built_fields)
  moreover from with_recipient_other[OF Some, of t2 ?tx] Some
  have "map_of (accounts s') a = map_of (accounts s) a" by (simp add: s')
  ultimately show ?thesis
    by (simp add: s' with_recipient_frame Account_init_def)
qed

text \<open>
  The theorem on the fresh ledger: the failed staging of 600000 to the new address
  \<open>0xnew\<close> appends an account for it.
\<close>

theorem failed_staging_creates_recipient_witness:
  "stage_transaction (+) ''t2'' 1 1 ACCOUNT_2 ''0xnew'' 600000 [] 5 21000
       (Blockchain_init demo_hash 0 0 0 0)
     = (Inl InsufficientBalance,
        (Blockchain_init demo_hash 0 0 0 0)
          \<lparr>accounts := accounts (Blockchain_init demo_hash 0 0 0 0)
                         @ [(''0xnew'', Account_init 1 ''0xnew'' None 0 False 0)]\<rparr>)
   \<and> map_of (accounts (Blockchain_init demo_hash 0 0 0 0)) ''0xnew'' = None
   \<and> (\<exists>acc. map_of (accounts (snd (stage_transaction (+) ''t2'' 1 1 ACCOUNT_2 ''0xnew'' 600000 [] 5 21000
                (Blockchain_init demo_hash 0 0 0 0)))) ''0xnew'' = Some acc \<and> acc_balance acc = 0)"
proof -
  let ?s = "Blockchain_init demo_hash 0 0 0 0"
  let ?s' = "?s\<lparr>accounts := accounts ?s @ [(''0xnew'', Account_init 1 ''0xnew'' None 0 False 0)]\<rparr>"
  have e: "stage_transaction (+) ''t2'' 1 1 ACCOUNT_2 ''0xnew'' 600000 [] 5 21000 ?s
             = (Inl InsufficientBalance, ?s')"
    by code_simp
  have n: "map_of (accounts ?s) ''0xnew'' = None" by code_simp
  from failed_staging_creates_recipient[OF e n] e n show ?thesis by simp
qed

subsection \<open>Mining, case by case\<close>

text \<open>
  The three ways a call of \<^verbatim>\<open>mine_pending_transactions\<close> ends: nothing to mine; no
  latest block (\<^verbatim>\<open>self.chain[-1]\<close> raises); or a block is mined and appended, and the
  processing loop either completes, after which the pool is cleared, or raises.
\<close>

lemma mine_cases:
  assumes "mine_pending_transactions H uid t1 t2 m s = Some (r, s')"
  obtains (empty) "pending_transactions s = []" "r = Inr None" "s' = s"
  | (no_chain) "pending_transactions s \<noteq> []" "chain s = []" "r = Inl IndexError"
      "s' = s\<lparr>pending_transactions := pending_transactions s @ [reward_transaction uid t1 m]\<rparr>"
  | (mined) b res txs' accs' where "pending_transactions s \<noteq> []" "chain s \<noteq> []"
      "mine_block H None (Block_init H (int (length (chain s)))
          (map to_dict (pending_transactions s @ [reward_transaction uid t1 m])) t2
          (hash (last (chain s))) m 4) = Some b"
      "process_all (index b) (pending_transactions s @ [reward_transaction uid t1 m]) (accounts s)
         = (res, txs', accs')"
      "chain s' = chain s @ [b]" "accounts s' = accs'"
      "(res = Inr () \<and> r = Inr (Some b) \<and> pending_transactions s' = [])
       \<or> (\<exists>e. res = Inl e \<and> r = Inl e \<and> pending_transactions s' = txs')"
proof (cases "pending_transactions s = []")
  case True
  with assms have "r = Inr None" "s' = s" by (simp_all add: mine_pending_transactions_def Transaction_init_reward)
  with True show ?thesis by (rule empty)
next
  case ne: False
  show ?thesis
  proof (cases "chain s = []")
    case True
    with assms ne have "r = Inl IndexError"
      "s' = s\<lparr>pending_transactions := pending_transactions s @ [reward_transaction uid t1 m]\<rparr>"
      by (simp_all add: mine_pending_transactions_def Transaction_init_reward get_latest_block_def Let_def
          reward_transaction_def)
    with ne True show ?thesis by (rule no_chain)
  next
    case c: False
    let ?pool = "pending_transactions s @ [reward_transaction uid t1 m]"
    let ?B = "Block_init H (int (length (chain s))) (map to_dict ?pool) t2 (hash (last (chain s))) m 4"
    have map_pool: "map to_dict (pending_transactions s) @ [to_dict (reward_transaction uid t1 m)]
                      = map to_dict ?pool" by simp
    show ?thesis
    proof (cases "mine_block H None ?B")
      case None
      with assms ne c show ?thesis
        by (simp add: mine_pending_transactions_def Transaction_init_reward get_latest_block_def Let_def
            reward_transaction_def)
    next
      case (Some b)
      obtain res txs' accs' where pa: "process_all (index b) ?pool (accounts s) = (res, txs', accs')"
        by (cases "process_all (index b) ?pool (accounts s)") auto
      show ?thesis
      proof (cases res)
        case (Inl e)
        with assms ne c Some pa have "r = Inl e"
          "s' = s\<lparr>chain := chain s @ [b], pending_transactions := txs', accounts := accs'\<rparr>"
          by (auto simp: mine_pending_transactions_def Transaction_init_reward get_latest_block_def Let_def
              reward_transaction_def)
        with Inl have "chain s' = chain s @ [b]" "accounts s' = accs'"
          "(res = Inr () \<and> r = Inr (Some b) \<and> pending_transactions s' = [])
           \<or> (\<exists>e. res = Inl e \<and> r = Inl e \<and> pending_transactions s' = txs')"
          by simp_all
        with ne c Some pa show ?thesis by (rule mined)
      next
        case (Inr u)
        with assms ne c Some pa have "r = Inr (Some b)"
          "s' = s\<lparr>chain := chain s @ [b], pending_transactions := [], accounts := accs'\<rparr>"
          by (auto simp: mine_pending_transactions_def Transaction_init_reward get_latest_block_def Let_def
              reward_transaction_def)
        with Inr have "chain s' = chain s @ [b]" "accounts s' = accs'"
          "(res = Inr () \<and> r = Inr (Some b) \<and> pending_transactions s' = [])
           \<or> (\<exists>e. res = Inl e \<and> r = Inl e \<and> pending_transactions s' = txs')"
          by simp_all
        with ne c Some pa show ?thesis by (rule mined)
      qed
    qed
  qed
qed

subsection \<open>Account nonces\<close>

lemma process_transaction_nonce:
  assumes "process_transaction tx n accs = (r, tx', accs')"
  shows "nonce_of accs' = nonce_of accs"
proof -
  have u: "nonce_of (AList.update k (f a) al) = nonce_of al"
    if "map_of al k = Some a" "acc_nonce (f a) = acc_nonce a" for k f a and al :: accounts
    using that by (auto simp: nonce_of_def map_of_update fun_eq_iff)
  let ?accs1 = "(if tx_sender tx \<noteq> SYSTEM_ADDRESS then
               (case map_of accs (tx_sender tx) of
                  Some sender \<Rightarrow>
                    AList.update (tx_sender tx)
                      (sender\<lparr>acc_balance := acc_balance sender - (tx_amount tx + tx_fee tx),
                              acc_transaction_count := acc_transaction_count sender + 1,
                              acc_last_activity := tx_timestamp tx\<rparr>) accs
                | None \<Rightarrow> accs)
             else accs)"
  have 1: "nonce_of ?accs1 = nonce_of accs"
    by (auto split: option.splits intro!: u[where f="\<lambda>sender. sender\<lparr>acc_balance := acc_balance sender - (tx_amount tx + tx_fee tx),
                              acc_transaction_count := acc_transaction_count sender + 1,
                              acc_last_activity := tx_timestamp tx\<rparr>"])
  from assms have "accs' = ?accs1 \<or> (\<exists>recipient. map_of ?accs1 (tx_recipient tx) = Some recipient
      \<and> accs' = AList.update (tx_recipient tx)
                (recipient\<lparr>acc_balance := acc_balance recipient + tx_amount tx,
                           acc_last_activity := tx_timestamp tx\<rparr>) ?accs1)"
    by (auto simp: process_transaction_def Let_def split: option.splits)
  then show ?thesis
  proof
    assume "accs' = ?accs1" with 1 show ?thesis by simp
  next
    assume "\<exists>recipient. map_of ?accs1 (tx_recipient tx) = Some recipient
      \<and> accs' = AList.update (tx_recipient tx)
                (recipient\<lparr>acc_balance := acc_balance recipient + tx_amount tx,
                           acc_last_activity := tx_timestamp tx\<rparr>) ?accs1"
    then obtain recipient where m: "map_of ?accs1 (tx_recipient tx) = Some recipient"
      and a: "accs' = AList.update (tx_recipient tx)
                (recipient\<lparr>acc_balance := acc_balance recipient + tx_amount tx,
                           acc_last_activity := tx_timestamp tx\<rparr>) ?accs1" by blast
    have "nonce_of accs' = nonce_of ?accs1"
      unfolding a
      by (rule u[OF m, where f="\<lambda>recipient. recipient\<lparr>acc_balance := acc_balance recipient + tx_amount tx,
                           acc_last_activity := tx_timestamp tx\<rparr>"]) simp
    with 1 show ?thesis by simp
  qed
qed

lemma process_all_nonce:
  assumes "process_all n txs accs = (r, txs', accs')"
  shows "nonce_of accs' = nonce_of accs"
  using assms
proof (induction txs arbitrary: accs r txs' accs')
  case Nil
  then show ?case by simp
next
  case (Cons tx txs)
  obtain r1 tx1 accs1 where p: "process_transaction tx n accs = (r1, tx1, accs1)"
    by (cases "process_transaction tx n accs") auto
  note n1 = process_transaction_nonce[OF p]
  show ?case
  proof (cases r1)
    case (Inl e)
    with Cons.prems p have "accs' = accs1" by simp
    with n1 show ?thesis by simp
  next
    case (Inr u)
    obtain r2 txs2 accs2 where q: "process_all n txs accs1 = (r2, txs2, accs2)"
      by (cases "process_all n txs accs1") auto
    with Cons.prems p Inr have "accs' = accs2" by simp
    with Cons.IH[OF q] n1 show ?thesis by simp
  qed
qed

lemma mine_nonce:
  assumes "mine_pending_transactions H uid t1 t2 m s = Some (r, s')"
  shows "nonce_of (accounts s') = nonce_of (accounts s)"
  using assms
proof (cases rule: mine_cases)
  case empty
  then show ?thesis by simp
next
  case no_chain
  then show ?thesis by simp
next
  case (mined b res txs' accs')
  with process_all_nonce[OF mined(4)] show ?thesis by simp
qed

lemma lookup_frame:
  "accounts (snd (get_transaction i s)) = accounts s"
  "pending_transactions (snd (get_transaction i s)) = pending_transactions s"
  "accounts (snd (get_account_transactions a s)) = accounts s"
  "pending_transactions (snd (get_account_transactions a s)) = pending_transactions s"
  "snd (get_block_by_number n s) = s"
  "snd (get_block_by_hash h s) = s"
  "snd (get_network_stats s) = s"
  "snd (is_chain_valid H s) = s"
  by (simp_all add: get_transaction_def get_account_transactions_def get_block_by_number_def
      get_block_by_hash_def get_network_stats_def is_chain_valid_def Let_def
      split: option.splits prod.splits)

lemma stage_success:
  assumes "stage_transaction fadd uid t1 t2 a b amt d gp gl s = (Inr i, s')"
  obtains acc where "map_of (accounts s) a = Some acc"
    "i = ''0x'' @ uid"
    "pending_transactions s' = pending_transactions s
        @ [(Transaction_built uid t1 a b amt d 0 gp gl)\<lparr>tx_nonce := acc_nonce acc\<rparr>]"
    "accounts s' = AList.update a (acc\<lparr>acc_nonce := acc_nonce acc + 1\<rparr>)
        (accounts (with_recipient t2 (Transaction_built uid t1 a b amt d 0 gp gl) s))"
    "chain s' = chain s"
proof (cases "map_of (accounts s) a")
  case None
  then have "fst (stage_transaction fadd uid t1 t2 a b amt d gp gl s) = Inl UnknownSender
      \<or> fst (stage_transaction fadd uid t1 t2 a b amt d gp gl s) = Inl OverflowError"
    by (simp add: stage_transaction_unfold add_transaction_unknown Transaction_built_fields)
  with assms show ?thesis by auto
next
  case (Some acc)
  let ?tx = "Transaction_built uid t1 a b amt d 0 gp gl"
  from Some have k: "map_of (accounts s) (tx_sender ?tx) = Some acc"
    by (simp add: Transaction_built_fields)
  from add_transaction_known[OF k, of fadd t2] assms
  have "i = ''0x'' @ uid"
    "pending_transactions s' = pending_transactions s @ [?tx\<lparr>tx_nonce := acc_nonce acc\<rparr>]"
    "accounts s' = AList.update a (acc\<lparr>acc_nonce := acc_nonce acc + 1\<rparr>)
        (accounts (with_recipient t2 ?tx s))"
    "chain s' = chain s"
    by (auto simp: stage_transaction_unfold Transaction_built_fields with_recipient_frame
        split: if_splits)
  with Some show ?thesis by (rule that)
qed

lemma add_transaction_nonce_mono:
  assumes "nonce_of (accounts s) k = Some n"
  shows "\<exists>n'. nonce_of (accounts (snd (add_transaction fadd now tx s))) k = Some n' \<and> n \<le> n'"
proof (cases "map_of (accounts s) (tx_sender tx)")
  case None
  with assms show ?thesis by (simp add: add_transaction_unknown)
next
  case (Some acc)
  from assms obtain ak where ak: "map_of (accounts s) k = Some ak" "acc_nonce ak = n"
    by (auto simp: nonce_of_def)
  from with_recipient_other[OF ak(1), of now tx]
  have w: "map_of (accounts (with_recipient now tx s)) k = Some ak" .
  from with_recipient_other[OF Some, of now tx] Some ak
  have "k = tx_sender tx \<Longrightarrow> acc = ak" by simp
  with w ak show ?thesis
    by (auto simp: add_transaction_known[OF Some] nonce_of_def map_of_update)
qed

lemma perform_nonce_mono:
  assumes "perform H fadd c s = Some s'" "\<not> creates a c" "nonce_of (accounts s) a = Some n"
  shows "\<exists>n'. nonce_of (accounts s') a = Some n' \<and> n \<le> n'"
proof (cases c)
  case (Stage uid t1 t2 x y amt d gp gl)
  with assms(1) have "s' = s
      \<or> s' = snd (add_transaction fadd t2 (Transaction_built uid t1 x y amt d 0 gp gl) s)"
    by (auto simp: stage_transaction_unfold)
  with add_transaction_nonce_mono[OF assms(3)] assms(3) show ?thesis by auto
next
  case (Mine uid t1 t2 m)
  with assms(1) obtain r where "mine_pending_transactions H uid t1 t2 m s = Some (r, s')"
    by auto
  from mine_nonce[OF this] assms(3) show ?thesis by simp
next
  case (CreateAccount now pk addr)
  with assms show ?thesis
    by (auto simp: create_account_def Let_def nonce_of_def map_of_update)
qed (use assms in \<open>auto simp: lookup_frame\<close>)

lemma run_nonce_mono:
  assumes "run H fadd cs s = Some s'" "list_all (\<lambda>c. \<not> creates a c) cs" "nonce_of (accounts s) a = Some n"
  shows "\<exists>n'. nonce_of (accounts s') a = Some n' \<and> n \<le> n'"
  using assms
proof (induction cs arbitrary: s n)
  case Nil
  then show ?case by simp
next
  case (Cons c cs)
  from Cons.prems(1) obtain s1 where p: "perform H fadd c s = Some s1" and r: "run H fadd cs s1 = Some s'"
    by (auto split: option.splits)
  from Cons.prems(2) have nc: "\<not> creates a c" and ncs: "list_all (\<lambda>c. \<not> creates a c) cs"
    by simp_all
  from perform_nonce_mono[OF p nc Cons.prems(3)]
  obtain n1 where n1: "nonce_of (accounts s1) a = Some n1" "n \<le> n1" by blast
  from Cons.IH[OF r ncs n1(1)] n1(2) show ?case by force
qed

text \<open>
  \<^bold>\<open>C6.\<close> A successful staging appends one transaction to the pool, whose nonce is
  the sender's nonce before the call, and leaves the sender's nonce greater by one.
  Hence, of two successful stagings by one sender, with any calls in between (staging,
  mining, lookups, account creation at other addresses), the later transaction has the
  strictly greater nonce.
\<close>

theorem staging_nonce:
  "(stage_transaction fadd uid t1 t2 a b amt d gp gl s = (Inr i, s') \<longrightarrow>
      (\<exists>acc acc'. map_of (accounts s) a = Some acc
          \<and> pending_transactions s' \<noteq> []
          \<and> butlast (pending_transactions s') = pending_transactions s
          \<and> tx_id (last (pending_transactions s')) = i
          \<and> tx_sender (last (pending_transactions s')) = a
          \<and> tx_nonce (last (pending_transactions s')) = acc_nonce acc
          \<and> map_of (accounts s') a = Some acc'
          \<and> acc_nonce acc' = acc_nonce acc + 1))
   \<and> (stage_transaction fadd uid t1 t2 a b amt d gp gl s = (Inr i, s')
        \<and> run H fadd calls s' = Some s2 \<and> list_all (\<lambda>c. \<not> creates a c) calls
        \<and> stage_transaction fadd uid' t1' t2' a b' amt' d' gp' gl' s2 = (Inr i', s3) \<longrightarrow>
      tx_nonce (last (pending_transactions s')) < tx_nonce (last (pending_transactions s3)))"
proof (intro conjI impI)
  assume st: "stage_transaction fadd uid t1 t2 a b amt d gp gl s = (Inr i, s')"
  from st show "\<exists>acc acc'. map_of (accounts s) a = Some acc
          \<and> pending_transactions s' \<noteq> []
          \<and> butlast (pending_transactions s') = pending_transactions s
          \<and> tx_id (last (pending_transactions s')) = i
          \<and> tx_sender (last (pending_transactions s')) = a
          \<and> tx_nonce (last (pending_transactions s')) = acc_nonce acc
          \<and> map_of (accounts s') a = Some acc'
          \<and> acc_nonce acc' = acc_nonce acc + 1"
  proof (cases rule: stage_success)
    case (1 acc)
    then show ?thesis
      by (simp add: Transaction_built_fields map_of_update)
  qed
next
  assume "stage_transaction fadd uid t1 t2 a b amt d gp gl s = (Inr i, s')
        \<and> run H fadd calls s' = Some s2 \<and> list_all (\<lambda>c. \<not> creates a c) calls
        \<and> stage_transaction fadd uid' t1' t2' a b' amt' d' gp' gl' s2 = (Inr i', s3)"
  then have st: "stage_transaction fadd uid t1 t2 a b amt d gp gl s = (Inr i, s')"
    and r: "run H fadd calls s' = Some s2" and nc: "list_all (\<lambda>c. \<not> creates a c) calls"
    and st': "stage_transaction fadd uid' t1' t2' a b' amt' d' gp' gl' s2 = (Inr i', s3)"
    by simp_all
  from st have "\<exists>acc::account. tx_nonce (last (pending_transactions s')) = acc_nonce acc
      \<and> nonce_of (accounts s') a = Some (acc_nonce acc + 1)"
  proof (cases rule: stage_success)
    case (1 acc)
    then have "tx_nonce (last (pending_transactions s')) = acc_nonce acc
      \<and> nonce_of (accounts s') a = Some (acc_nonce acc + 1)"
      by (simp add: nonce_of_def map_of_update)
    then show ?thesis by (rule exI)
  qed
  then obtain acc :: account where 1: "tx_nonce (last (pending_transactions s')) = acc_nonce acc"
    "nonce_of (accounts s') a = Some (acc_nonce acc + 1)" by blast
  from run_nonce_mono[OF r nc 1(2)] obtain n2 where
    2: "nonce_of (accounts s2) a = Some n2" "acc_nonce acc + 1 \<le> n2" by blast
  from st' have "tx_nonce (last (pending_transactions s3)) = n2"
  proof (cases rule: stage_success)
    case (1 acc2)
    with 2(1) show ?thesis by (simp add: nonce_of_def)
  qed
  with 1(1) 2(2) show "tx_nonce (last (pending_transactions s')) < tx_nonce (last (pending_transactions s3))"
    by simp
qed

text \<open>
  The theorem on the fresh ledger: the first account stages, the block is mined, the
  account stages again; the nonces are 0 and 1.
\<close>

theorem staging_nonce_witness:
  "stage_transaction (+) ''t1'' 1 1 ACCOUNT_1 ACCOUNT_2 100 [] 5 21000 (Blockchain_init demo_hash 0 0 0 0)
     = (Inr ''0xt1'',
        snd (stage_transaction (+) ''t1'' 1 1 ACCOUNT_1 ACCOUNT_2 100 [] 5 21000
               (Blockchain_init demo_hash 0 0 0 0)))
   \<and> run demo_hash (+) [Mine ''r1'' 2 3 ACCOUNT_1]
         (snd (stage_transaction (+) ''t1'' 1 1 ACCOUNT_1 ACCOUNT_2 100 [] 5 21000
                 (Blockchain_init demo_hash 0 0 0 0))) = Some demo_ledger
   \<and> list_all (\<lambda>c. \<not> creates ACCOUNT_1 c) [Mine ''r1'' 2 3 ACCOUNT_1]
   \<and> stage_transaction (+) ''t3'' 4 4 ACCOUNT_1 ACCOUNT_3 50 [] 5 21000 demo_ledger
     = (Inr ''0xt3'', snd (stage_transaction (+) ''t3'' 4 4 ACCOUNT_1 ACCOUNT_3 50 [] 5 21000 demo_ledger))
   \<and> tx_nonce (last (pending_transactions
         (snd (stage_transaction (+) ''t1'' 1 1 ACCOUNT_1 ACCOUNT_2 100 [] 5 21000
                 (Blockchain_init demo_hash 0 0 0 0))))) = 0
   \<and> tx_nonce (last (pending_transactions
         (snd (stage_transaction (+) ''t1'' 1 1 ACCOUNT_1 ACCOUNT_2 100 [] 5 21000
                 (Blockchain_init demo_hash 0 0 0 0)))))
       < tx_nonce (last (pending_transactions
           (snd (stage_transaction (+) ''t3'' 4 4 ACCOUNT_1 ACCOUNT_3 50 [] 5 21000 demo_ledger))))"
proof -
  let ?s = "Blockchain_init demo_hash 0 0 0 0"
  let ?st1 = "stage_transaction (+) ''t1'' 1 1 ACCOUNT_1 ACCOUNT_2 100 [] 5 21000 ?s"
  let ?st2 = "stage_transaction (+) ''t3'' 4 4 ACCOUNT_1 ACCOUNT_3 50 [] 5 21000 demo_ledger"
  have "fst ?st1 = Inr ''0xt1''" by code_simp
  then have e1: "?st1 = (Inr ''0xt1'', snd ?st1)" by (simp add: prod_eq_iff)
  have r: "run demo_hash (+) [Mine ''r1'' 2 3 ACCOUNT_1] (snd ?st1) = Some demo_ledger"
    using demo_run by (simp add: demo_calls_def)
  have nc: "list_all (\<lambda>c. \<not> creates ACCOUNT_1 c) [Mine ''r1'' 2 3 ACCOUNT_1]" by simp
  have "fst ?st2 = Inr ''0xt3''" by code_simp
  then have e2: "?st2 = (Inr ''0xt3'', snd ?st2)" by (simp add: prod_eq_iff)
  have z: "tx_nonce (last (pending_transactions (snd ?st1))) = 0" by code_simp
  from staging_nonce[of "(+)" "''t1''" 1 1 ACCOUNT_1 ACCOUNT_2 100 "[]" 5 21000 ?s "''0xt1''"
      "snd ?st1" demo_hash "[Mine ''r1'' 2 3 ACCOUNT_1]" demo_ledger "''t3''" 4 4 ACCOUNT_3 50
      "[]" 5 21000 "''0xt3''" "snd ?st2"] e1 r nc e2
  have "tx_nonce (last (pending_transactions (snd ?st1)))
          < tx_nonce (last (pending_transactions (snd ?st2)))" by blast
  with e1 r nc e2 z show ?thesis by blast
qed

subsection \<open>Gas and fee\<close>

lemma fee_derived_init: "fee_derived (Transaction_built uid now a b amt d n gp gl)"
  by (simp add: fee_derived_def Transaction_built_fields Transaction_built_gas_used
      Transaction_built_fee)

lemma fee_derived_updates:
  "fee_derived (t\<lparr>tx_nonce := n\<rparr>) = fee_derived t"
  "fee_derived (t\<lparr>tx_status := st\<rparr>) = fee_derived t"
  "fee_derived (t\<lparr>tx_block_number := bn\<rparr>) = fee_derived t"
  "fee_derived (to_dict t) = fee_derived t"
  by (simp_all add: fee_derived_def to_dict_def)

lemma process_transaction_fee_derived:
  assumes "process_transaction tx n accs = (r, tx', accs')"
  shows "fee_derived tx' = fee_derived tx"
  using assms
  by (auto simp: process_transaction_def Let_def fee_derived_updates split: option.splits)

lemma process_all_fee_derived:
  assumes "process_all n txs accs = (r, txs', accs')" "list_all fee_derived txs"
  shows "list_all fee_derived txs'"
  using assms
proof (induction txs arbitrary: accs r txs' accs')
  case Nil
  then show ?case by simp
next
  case (Cons tx txs)
  obtain r1 tx1 accs1 where p: "process_transaction tx n accs = (r1, tx1, accs1)"
    by (cases "process_transaction tx n accs") auto
  from process_transaction_fee_derived[OF p] Cons.prems(2) have f1: "fee_derived tx1" by simp
  show ?case
  proof (cases r1)
    case (Inl e)
    with Cons.prems p f1 show ?thesis by auto
  next
    case (Inr u)
    obtain r2 txs2 accs2 where q: "process_all n txs accs1 = (r2, txs2, accs2)"
      by (cases "process_all n txs accs1") auto
    from Cons.IH[OF q] Cons.prems(2) have "list_all fee_derived txs2" by simp
    with Cons.prems(1) p Inr q f1 show ?thesis by auto
  qed
qed

lemma scan_transactions_fee_derived:
  assumes "scan_transactions i n ds = Some (r, ds')" "list_all fee_derived ds"
  shows "list_all fee_derived ds'"
  using assms
  by (induction ds arbitrary: r ds')
     (auto simp: Let_def fee_derived_updates split: if_splits option.splits)

lemma scan_chain_fee_derived:
  assumes "scan_chain i bs = Some (r, bs')"
    "list_all (\<lambda>b. list_all fee_derived (transactions b)) bs"
  shows "list_all (\<lambda>b. list_all fee_derived (transactions b)) bs'"
  using assms
  by (induction bs arbitrary: r bs')
     (auto split: option.splits dest: scan_transactions_fee_derived)

lemma stamp_block_fee_derived:
  "list_all fee_derived (transactions (stamp_block a b)) = list_all fee_derived (transactions b)"
proof -
  have "list_all fee_derived
          (map (\<lambda>d. if involves a d then d\<lparr>tx_block_number := Some n\<rparr> else d) ds)
        = list_all fee_derived ds" for n ds
    by (induction ds) (simp_all add: fee_derived_updates)
  then show ?thesis by (simp add: stamp_block_def)
qed

lemma stage_failure_pool:
  assumes "fst (stage_transaction fadd uid t1 t2 a b amt d gp gl s) = Inl e"
  shows "pending_transactions (snd (stage_transaction fadd uid t1 t2 a b amt d gp gl s))
           = pending_transactions s"
proof (cases "map_of (accounts s) a")
  case None
  then show ?thesis
    by (simp add: stage_transaction_unfold add_transaction_unknown Transaction_built_fields)
next
  case (Some acc)
  let ?tx = "Transaction_built uid t1 a b amt d 0 gp gl"
  from Some have "map_of (accounts s) (tx_sender ?tx) = Some acc"
    by (simp add: Transaction_built_fields)
  from add_transaction_known[OF this, of fadd t2] assms show ?thesis
    by (simp add: stage_transaction_unfold with_recipient_frame split: if_splits)
qed

lemma perform_fee_derived:
  assumes "perform H fadd c s = Some s'" "all_fee_derived s"
  shows "all_fee_derived s'"
proof (cases c)
  case (Stage uid t1 t2 x y amt d gp gl)
  let ?st = "stage_transaction fadd uid t1 t2 x y amt d gp gl s"
  from Stage assms(1) have s': "s' = snd ?st" by simp
  show ?thesis
  proof (cases "fst ?st")
    case (Inl e)
    from stage_failure_pool[OF this]
    have "pending_transactions s' = pending_transactions s" by (simp add: s')
    with assms(2) show ?thesis
      by (simp add: all_fee_derived_def s' stage_transaction_chain)
  next
    case (Inr i)
    then have "?st = (Inr i, s')" by (simp add: s' prod_eq_iff)
    then show ?thesis
    proof (cases rule: stage_success)
      case (1 acc)
      with assms(2) show ?thesis
        by (simp add: all_fee_derived_def fee_derived_updates fee_derived_init)
    qed
  qed
next
  case (Mine uid t1 t2 m)
  with assms(1) obtain r where "mine_pending_transactions H uid t1 t2 m s = Some (r, s')"
    by auto
  then show ?thesis
  proof (cases rule: mine_cases)
    case empty
    with assms(2) show ?thesis by simp
  next
    case no_chain
    with assms(2) show ?thesis
      by (simp add: all_fee_derived_def reward_transaction_def fee_derived_updates fee_derived_init)
  next
    case (mined b res txs' accs')
    let ?pool = "pending_transactions s @ [reward_transaction uid t1 m]"
    from assms(2) have pool: "list_all fee_derived ?pool"
      by (simp add: all_fee_derived_def reward_transaction_def fee_derived_updates fee_derived_init)
    from mine_block_result(2)[OF mined(3)] pool
    have "list_all fee_derived (transactions b)"
      by (simp add: list_all_iff fee_derived_updates)
    moreover from process_all_fee_derived[OF mined(4) pool] mined(7)
    have "list_all fee_derived (pending_transactions s')" by auto
    ultimately show ?thesis using assms(2) mined(5)
      by (simp add: all_fee_derived_def)
  qed
next
  case (CreateAccount now pk addr)
  with assms show ?thesis by (auto simp: create_account_def Let_def all_fee_derived_def)
next
  case (GetTransaction i)
  with assms show ?thesis
    by (auto simp: get_transaction_def all_fee_derived_def split: option.splits
             dest: scan_chain_fee_derived)
next
  case (GetAccountTransactions a)
  with assms show ?thesis
    by (auto simp: get_account_transactions_def Let_def all_fee_derived_def list.pred_map
          comp_def stamp_block_fee_derived)
qed (use assms in \<open>auto simp: lookup_frame\<close>)

lemma run_fee_derived:
  assumes "run H fadd cs s = Some s'" "all_fee_derived s"
  shows "all_fee_derived s'"
  using assms
proof (induction cs arbitrary: s)
  case Nil
  then show ?case by simp
next
  case (Cons c cs)
  from Cons.prems(1) obtain s1 where p: "perform H fadd c s = Some s1" and r: "run H fadd cs s1 = Some s'"
    by (auto split: option.splits)
  from Cons.IH[OF r perform_fee_derived[OF p Cons.prems(2)]] show ?case .
qed

lemma all_fee_derived_init: "all_fee_derived (Blockchain_init H t0 t1 t2 t3)"
  by (simp add: all_fee_derived_def Blockchain_init_def create_initial_accounts_def
      create_genesis_block_def Let_def Block_init_def)

text \<open>
  \<^bold>\<open>C7.\<close> Every transaction the constructor returns has \<open>gas_used\<close> equal to the
  minimum of the gas limit and 21000 plus 68 per character of payload, and the fee equal
  to \<open>gas_used\<close> times the gas price over \<open>10\<^sup>9\<close>, whatever fee the caller passes. No
  operation recomputes them: in every ledger that any calls produce from a fresh ledger,
  every pending transaction and every transaction record in a block still has the
  derived values.
\<close>

theorem gas_and_fee_derived_once:
  "(\<forall>t. Transaction_init uid now a b amt fee d n gp gl = Inr t \<longrightarrow>
        tx_gas_used t = min gl (21000 + 68 * int (length d))
        \<and> tx_fee t = real_of_int (min gl (21000 + 68 * int (length d)) * gp) / 1000000000)
   \<and> (run H fadd calls (Blockchain_init H t0 t1 t2 t3) = Some s \<longrightarrow>
        list_all fee_derived (pending_transactions s)
        \<and> list_all (\<lambda>b. list_all fee_derived (transactions b)) (chain s))"
proof -
  have "all_fee_derived s" if "run H fadd calls (Blockchain_init H t0 t1 t2 t3) = Some s"
    by (rule run_fee_derived[OF that all_fee_derived_init])
  moreover have "tx_gas_used t = min gl (21000 + 68 * int (length d))
        \<and> tx_fee t = real_of_int (min gl (21000 + 68 * int (length d)) * gp) / 1000000000"
    if "Transaction_init uid now a b amt fee d n gp gl = Inr t" for t
    using that
    by (auto simp: Transaction_init_cases Transaction_built_gas_used Transaction_built_fee
             split: if_splits)
  ultimately show ?thesis
    by (simp add: all_fee_derived_def)
qed

text \<open>
  The theorem at a transaction with the payload \<open>abc\<close>, the gas limit 30000 and the
  fee argument 7, and at the demonstration ledger.
\<close>

theorem gas_and_fee_derived_once_witness:
  "Transaction_init ''t1'' 1 ACCOUNT_1 ACCOUNT_2 100 7 ''abc'' 0 5 30000
     = Inr (Transaction_built ''t1'' 1 ACCOUNT_1 ACCOUNT_2 100 ''abc'' 0 5 30000)
   \<and> tx_gas_used (Transaction_built ''t1'' 1 ACCOUNT_1 ACCOUNT_2 100 ''abc'' 0 5 30000) = 21204
   \<and> tx_fee (Transaction_built ''t1'' 1 ACCOUNT_1 ACCOUNT_2 100 ''abc'' 0 5 30000) = 5301 / 50000000
   \<and> run demo_hash (+) demo_calls (Blockchain_init demo_hash 0 0 0 0) = Some demo_ledger
   \<and> list_all fee_derived (pending_transactions demo_ledger)
   \<and> list_all (\<lambda>b. list_all fee_derived (transactions b)) (chain demo_ledger)
   \<and> map (\<lambda>b. map tx_fee (transactions b)) (chain demo_ledger) = [[], [21 / 200000, 21 / 200000]]"
proof -
  let ?t = "Transaction_built ''t1'' 1 ACCOUNT_1 ACCOUNT_2 100 ''abc'' 0 5 30000"
  have e: "Transaction_init ''t1'' 1 ACCOUNT_1 ACCOUNT_2 100 7 ''abc'' 0 5 30000 = Inr ?t"
    by code_simp
  note t = gas_and_fee_derived_once[of "''t1''" 1 ACCOUNT_1 ACCOUNT_2 100 7 "''abc''" 0 5 30000
      demo_hash "(+)" demo_calls 0 0 0 0 demo_ledger]
  from t e have "tx_gas_used ?t = min 30000 (21000 + 68 * int (length ''abc''))
        \<and> tx_fee ?t = real_of_int (min 30000 (21000 + 68 * int (length ''abc'')) * 5) / 1000000000"
    by blast
  then have "tx_gas_used ?t = 21204" "tx_fee ?t = 5301 / 50000000"
    by simp_all
  moreover from t demo_run
  have "list_all fee_derived (pending_transactions demo_ledger)
   \<and> list_all (\<lambda>b. list_all fee_derived (transactions b)) (chain demo_ledger)" by blast
  ultimately show ?thesis using demo_run e by (simp add: demo_ledger_def)
qed

subsection \<open>The transaction records of a mined block\<close>

lemma demo_mine:
  "mine_pending_transactions demo_hash ''r1'' 2 3 ACCOUNT_1
       (snd (stage_transaction (+) ''t1'' 1 1 ACCOUNT_1 ACCOUNT_2 100 [] 5 21000
               (Blockchain_init demo_hash 0 0 0 0)))
     = Some (Inr (Some (chain demo_ledger ! 1)), demo_ledger)"
  by code_simp

text \<open>
  Under every hash function, the block that a successful call returns holds the pool as
  it was when the call began, followed by the reward transaction: a transaction staged
  with status \<open>Pending\<close> and no block number is stored so.
\<close>

lemma mined_block_is_pool_snapshot:
  assumes "mine_pending_transactions H uid t1 t2 m s = Some (Inr (Some b), s')"
  shows "transactions b = pending_transactions s @ [reward_transaction uid t1 m]
         \<and> index b = int (length (chain s)) \<and> pending_transactions s' = []"
  using assms
proof (cases rule: mine_cases)
  case (mined b' res txs' accs')
  from mined(7) have b: "b' = b" and p: "pending_transactions s' = []" by auto
  from mine_block_result(1,2)[OF mined(3)] b p show ?thesis
    by (simp add: to_dict_def[abs_def])
qed simp_all

text \<open>
  \<^bold>\<open>C2\<close> fails on the code. The block that \<^verbatim>\<open>mine_pending_transactions\<close> returns
  holds the dictionaries \<^verbatim>\<open>to_dict\<close> made before \<^verbatim>\<open>_process_transaction\<close> ran, so
  the status and the block number that the loop assigns reach the transaction objects
  only, which are dropped when the pool is cleared (\<open>mined_block_is_pool_snapshot\<close>).
  At the demonstration ledger the returned block 1 holds the transfer with status
  \<open>Pending\<close> and both records without a block number.
\<close>

theorem mined_block_records_stay_pending:
  "mine_pending_transactions demo_hash ''r1'' 2 3 ACCOUNT_1
       (snd (stage_transaction (+) ''t1'' 1 1 ACCOUNT_1 ACCOUNT_2 100 [] 5 21000
               (Blockchain_init demo_hash 0 0 0 0)))
     = Some (Inr (Some (chain demo_ledger ! 1)), demo_ledger)
   \<and> index (chain demo_ledger ! 1) = 1
   \<and> map (\<lambda>d. (tx_id d, tx_status d, tx_block_number d)) (transactions (chain demo_ledger ! 1))
       = [(''0xt1'', Pending, None), (''0xr1'', Confirmed, None)]"
  using demo_mine by (simp add: demo_ledger_def)

subsection \<open>Lookups\<close>

text \<open>
  \<^bold>\<open>C3\<close> fails on the code. Four lookups return the ledger as it is and all six
  leave the pool and the accounts alone (\<open>lookup_frame\<close>), but \<^verbatim>\<open>get_transaction\<close>
  and \<^verbatim>\<open>get_account_transactions\<close> write the block number into the dictionary
  stored in the block. At the demonstration ledger, which passes \<^verbatim>\<open>is_chain_valid\<close>,
  either lookup changes the first record of block 1, and the chain fails the check
  afterwards.
\<close>

theorem lookup_breaks_chain_validity:
  "run demo_hash (+) demo_calls (Blockchain_init demo_hash 0 0 0 0) = Some demo_ledger
   \<and> fst (is_chain_valid demo_hash demo_ledger)
   \<and> map tx_block_number (transactions (chain demo_ledger ! 1)) = [None, None]
   \<and> map tx_block_number (transactions (chain (snd (get_transaction ''0xt1'' demo_ledger)) ! 1))
       = [Some 1, None]
   \<and> \<not> fst (is_chain_valid demo_hash (snd (get_transaction ''0xt1'' demo_ledger)))
   \<and> map tx_block_number
         (transactions (chain (snd (get_account_transactions ACCOUNT_2 demo_ledger)) ! 1))
       = [Some 1, None]
   \<and> \<not> fst (is_chain_valid demo_hash (snd (get_account_transactions ACCOUNT_2 demo_ledger)))"
proof -
  have 1: "fst (is_chain_valid demo_hash demo_ledger)" by code_simp
  have 2: "map tx_block_number (transactions (chain demo_ledger ! 1)) = [None, None]" by code_simp
  have 3: "map tx_block_number (transactions (chain (snd (get_transaction ''0xt1'' demo_ledger)) ! 1))
       = [Some 1, None]" by code_simp
  have 4: "\<not> fst (is_chain_valid demo_hash (snd (get_transaction ''0xt1'' demo_ledger)))" by code_simp
  have 5: "map tx_block_number
         (transactions (chain (snd (get_account_transactions ACCOUNT_2 demo_ledger)) ! 1))
       = [Some 1, None]" by code_simp
  have 6: "\<not> fst (is_chain_valid demo_hash (snd (get_account_transactions ACCOUNT_2 demo_ledger)))"
    by code_simp
  from demo_run 1 2 3 4 5 6 show ?thesis by blast
qed

subsection \<open>Network statistics\<close>

text \<open>
  \<^bold>\<open>C9\<close> fails on the code. After eleven mined blocks the chain has twelve blocks,
  stamped 0, 1, ..., 10, 110. \<^verbatim>\<open>get_network_stats\<close> averages the differences over
  \<^verbatim>\<open>range(1, min(11, len(self.chain)))\<close>, the eleven oldest blocks, and reports 1
  (and 2 transactions per second); the mean over the ten most recent blocks is 12, over
  the eleven most recent ones 10.9. The difficulty reported is the one of the latest
  block.
\<close>

theorem average_block_time_of_oldest_blocks:
  "map_option (\<lambda>s. (length (chain s), map timestamp (chain s),
                     average_block_time (fst (get_network_stats s)),
                     tps (fst (get_network_stats s)),
                     stats_difficulty (fst (get_network_stats s)),
                     spec_average_block_time 10 (chain s),
                     spec_average_block_time 11 (chain s)))
     (run demo_hash (+) twelve_block_calls (Blockchain_init demo_hash 0 0 0 0))
   = Some (12, [0, 1, 2, 3, 4, 5, 6, 7, 8, 9, 10, 110], 1, 2, 4, 12, 109 / 10)"
  by code_simp

subsection \<open>Balances under mining\<close>



lemma process_transaction_unfold:
  "process_transaction tx n accs =
     (case map_of (debit_sender tx accs) (tx_recipient tx) of
        Some recipient \<Rightarrow>
          (Inr (), tx\<lparr>tx_status := Confirmed, tx_block_number := Some n\<rparr>,
           AList.update (tx_recipient tx)
             (recipient\<lparr>acc_balance := acc_balance recipient + tx_amount tx,
                        acc_last_activity := tx_timestamp tx\<rparr>) (debit_sender tx accs))
      | None \<Rightarrow>
          (Inl TypeError, tx\<lparr>tx_status := Confirmed, tx_block_number := Some n\<rparr>,
           debit_sender tx accs))"
  by (auto simp: process_transaction_def debit_sender_def Let_def split: option.splits)






text \<open>
  The association list never holds an address twice, as the dictionary it stands for:
  in every ledger that calls produce from a fresh ledger, the keys are distinct.
\<close>

lemma process_transaction_distinct:
  assumes "process_transaction tx n accs = (r, tx', accs')" "distinct (map fst accs)"
  shows "distinct (map fst accs')"
proof -
  from assms(2) have "distinct (map fst (debit_sender tx accs))"
    by (auto simp: debit_sender_def distinct_update split: option.splits)
  with assms(1) show ?thesis
    by (auto simp: process_transaction_unfold distinct_update split: option.splits)
qed

lemma process_all_distinct:
  assumes "process_all n txs accs = (r, txs', accs')" "distinct (map fst accs)"
  shows "distinct (map fst accs')"
  using assms
proof (induction txs arbitrary: accs r txs' accs')
  case Nil
  then show ?case by simp
next
  case (Cons tx txs)
  obtain r1 tx1 accs1 where p: "process_transaction tx n accs = (r1, tx1, accs1)"
    by (cases "process_transaction tx n accs") auto
  note d1 = process_transaction_distinct[OF p Cons.prems(2)]
  show ?case
  proof (cases r1)
    case (Inl e)
    with Cons.prems(1) p d1 show ?thesis by auto
  next
    case (Inr u)
    obtain r2 txs2 accs2 where q: "process_all n txs accs1 = (r2, txs2, accs2)"
      by (cases "process_all n txs accs1") auto
    from Cons.IH[OF q d1] Cons.prems(1) p Inr q show ?thesis by auto
  qed
qed

lemma add_transaction_distinct:
  assumes "distinct (map fst (accounts s))"
  shows "distinct (map fst (accounts (snd (add_transaction fadd now tx s))))"
proof (cases "map_of (accounts s) (tx_sender tx)")
  case None
  with assms show ?thesis by (simp add: add_transaction_unknown)
next
  case (Some acc)
  from assms have "distinct (map fst (accounts (with_recipient now tx s)))"
    by (simp add: with_recipient_def distinct_update)
  then show ?thesis
    by (simp add: add_transaction_known[OF Some] distinct_update)
qed

lemma perform_distinct:
  assumes "perform H fadd c s = Some s'" "distinct (map fst (accounts s))"
  shows "distinct (map fst (accounts s'))"
proof (cases c)
  case (Stage uid t1 t2 x y amt d gp gl)
  with assms(1) have "s' = s
      \<or> s' = snd (add_transaction fadd t2 (Transaction_built uid t1 x y amt d 0 gp gl) s)"
    by (auto simp: stage_transaction_unfold)
  with add_transaction_distinct[OF assms(2)] assms(2) show ?thesis by auto
next
  case (Mine uid t1 t2 m)
  with assms(1) obtain r where "mine_pending_transactions H uid t1 t2 m s = Some (r, s')"
    by auto
  then show ?thesis
  proof (cases rule: mine_cases)
    case (mined b res txs' accs')
    from process_all_distinct[OF mined(4) assms(2)] mined(6) show ?thesis by simp
  qed (use assms(2) in simp_all)
next
  case (CreateAccount now pk addr)
  with assms show ?thesis
    by (auto simp: create_account_def Let_def distinct_update)
qed (use assms in \<open>auto simp: lookup_frame\<close>)

lemma run_distinct:
  assumes "run H fadd cs s = Some s'" "distinct (map fst (accounts s))"
  shows "distinct (map fst (accounts s'))"
  using assms
proof (induction cs arbitrary: s)
  case Nil
  then show ?case by simp
next
  case (Cons c cs)
  from Cons.prems(1) obtain s1 where p: "perform H fadd c s = Some s1" and r: "run H fadd cs s1 = Some s'"
    by (auto split: option.splits)
  from Cons.IH[OF r perform_distinct[OF p Cons.prems(2)]] show ?case .
qed

lemma reachable_accounts_distinct:
  assumes "run H fadd cs (Blockchain_init H t0 t1 t2 t3) = Some s"
  shows "distinct (map fst (accounts s))"
proof -
  have "distinct (map fst (accounts (Blockchain_init H t0 t1 t2 t3)))"
    by (simp add: Blockchain_init_def create_initial_accounts_def create_genesis_block_def
        initial_accounts_def Let_def)
  from run_distinct[OF assms this] show ?thesis .
qed




end
